theory Spec2Isabelle
  imports Main "HOL-Library.Sublist"
begin

section \<open>JavaScript strings and numbers\<close>

text \<open>
  A string is a list of code units. The model covers the code units U+0000 to U+00FF,
  one \<^typ>\<open>char\<close> each.

  A number is an IEEE double. The model has the doubles whose value is an integer
  (\<open>Finite\<close>; both zeros are \<open>Finite 0\<close>), the two infinities and NaN. The result of an
  operation is the double nearest to the exact result, ties to the even significand, and an
  infinity from \<open>2^1024\<close> on. Delays are such numbers; the retry caps and the counter of
  attempts are integers.
\<close>

datatype js_number = Finite int | Infinity | NegInfinity | NaN

function bit_length :: "int \<Rightarrow> nat" where
  \<comment> \<open>The number of binary digits of a positive integer.\<close>
  "bit_length n = (if n \<le> 0 then 0 else Suc (bit_length (n div 2)))"
  by pat_completeness auto
termination
  by (relation "measure nat") auto

declare bit_length.simps [simp del]

definition round_magnitude :: "int \<Rightarrow> int option" where
  \<comment> \<open>The double nearest to an integer \<open>a \<ge> 0\<close>: the 53 leading binary digits are
      kept and the rest is rounded, a tie to the even neighbour. \<open>None\<close>: the result is
      out of the range of the finite doubles.\<close>
  "round_magnitude a =
     (let e = bit_length a - 53;
          q = a div 2 ^ e;
          r = a mod 2 ^ e;
          m = (if 2 * r < 2 ^ e \<or> (2 * r = 2 ^ e \<and> even q) then q else q + 1)
      in if m * 2 ^ e < 2 ^ 1024 then Some (m * 2 ^ e) else None)"

definition number_of_int :: "int \<Rightarrow> js_number" where
  \<comment> \<open>The double that an exact integer result becomes.\<close>
  "number_of_int i =
     (case round_magnitude \<bar>i\<bar> of
        None \<Rightarrow> if i < 0 then NegInfinity else Infinity
      | Some m \<Rightarrow> Finite (if i < 0 then - m else m))"

definition sign_of :: "js_number \<Rightarrow> int" where
  "sign_of x =
     (case x of Finite a \<Rightarrow> sgn a | Infinity \<Rightarrow> 1 | NegInfinity \<Rightarrow> - 1 | NaN \<Rightarrow> 0)"

definition js_times :: "js_number \<Rightarrow> js_number \<Rightarrow> js_number" where
  \<comment> \<open>The operator \<open>*\<close>: NaN if an operand is NaN or zero meets an infinity.\<close>
  "js_times x y =
     (if x = NaN \<or> y = NaN then NaN
      else case (x, y) of
             (Finite a, Finite b) \<Rightarrow> number_of_int (a * b)
           | _ \<Rightarrow>
               if sign_of x * sign_of y = 0 then NaN
               else if 0 < sign_of x * sign_of y then Infinity
               else NegInfinity)"

definition Math_pow2 :: "nat \<Rightarrow> js_number" where
  \<comment> \<open>\<open>Math.pow(2, k)\<close> for an integer \<open>k \<ge> 0\<close>.\<close>
  "Math_pow2 k = (if k \<le> 1023 then Finite (2 ^ k) else Infinity)"

definition toLowerCase_char :: "char \<Rightarrow> char" where
  \<comment> \<open>\<open>String.prototype.toLowerCase\<close> on one code unit below U+0100: A-Z, and
      U+00C0 to U+00DE without the multiplication sign U+00D7, move up by 32.\<close>
  "toLowerCase_char c =
     (let n = (of_char c :: nat)
      in if (65 \<le> n \<and> n \<le> 90) \<or> (192 \<le> n \<and> n \<le> 222 \<and> n \<noteq> 215)
         then char_of (n + 32) else c)"

definition toLowerCase :: "string \<Rightarrow> string" where
  "toLowerCase s = map toLowerCase_char s"

fun str_includes :: "string \<Rightarrow> string \<Rightarrow> bool" where
  \<comment> \<open>\<open>s.includes(t)\<close>: scan \<open>s\<close> from the left for a position where \<open>t\<close> starts.\<close>
  "str_includes [] t = (t = [])"
| "str_includes (c # s) t = (prefix t (c # s) \<or> str_includes s t)"

fun number_toString :: "nat \<Rightarrow> string" where
  \<comment> \<open>A non-negative integer inside a template literal: its decimal digits.\<close>
  "number_toString n =
     (if n < 10 then [char_of (48 + n)]
      else number_toString (n div 10) @ [char_of (48 + n mod 10)])"

declare number_toString.simps [simp del]

definition is_digit :: "char \<Rightarrow> bool" where
  \<comment> \<open>The class \<open>\d\<close>.\<close>
  "is_digit c = (let n = (of_char c :: nat) in 48 \<le> n \<and> n \<le> 57)"

definition is_space :: "char \<Rightarrow> bool" where
  \<comment> \<open>The class \<open>\s\<close> below U+0100: TAB, LF, VT, FF, CR, space and U+00A0.\<close>
  "is_space c = (of_char c \<in> {9, 10, 11, 12, 13, 32, 160 :: nat})"

definition digit_value :: "char \<Rightarrow> int" where
  "digit_value c = of_char c - 48"

definition digits_value :: "string \<Rightarrow> int" where
  \<comment> \<open>The integer that a string of decimal digits denotes.\<close>
  "digits_value ds = foldl (\<lambda>acc c. 10 * acc + digit_value c) 0 ds"

definition parseInt :: "string \<Rightarrow> js_number" where
  \<comment> \<open>\<open>Number.parseInt\<close> on a non-empty string of decimal digits: the double nearest
      to the integer denoted. (Past 20 significant digits the language standard also admits
      a double next to it; from \<open>2^1024\<close> on the result is \<open>Infinity\<close> either way.)\<close>
  "parseInt ds = number_of_int (digits_value ds)"

definition array_get :: "'a list \<Rightarrow> int \<Rightarrow> 'a option" where
  \<comment> \<open>Reading \<open>xs[i]\<close>: \<open>None\<close> is \<open>undefined\<close>, the value of a read outside
      the array.\<close>
  "array_get xs i = (if 0 \<le> i \<and> i < int (length xs) then Some (xs ! nat i) else None)"

section \<open>Errors\<close>

datatype error_class = Error | TypeError | SyntaxError

record js_error =
  err_class :: error_class
  message :: string

section \<open>Retry with backoff\<close>

record RetryConfig =
  maxOverloadRetries :: int
  overloadBackoffDelays :: "js_number list"
  maxOtherRetries :: int
  otherRetryDelay :: js_number

definition DEFAULT_RETRY_CONFIG :: RetryConfig where
  "DEFAULT_RETRY_CONFIG =
     \<lparr> maxOverloadRetries = 5,
       overloadBackoffDelays =
         [Finite 10000, Finite 20000, Finite 40000, Finite 60000, Finite 60000],
       maxOtherRetries = 3,
       otherRetryDelay = Finite 1000 \<rparr>"

text \<open>
  The caller passes a \<open>Partial<RetryConfig>\<close>: every option may be absent. The status
  callback \<open>onRetryStatus\<close> and the logger only report progress and are left out of
  the model.
\<close>

record PartialRetryConfig =
  opt_maxOverloadRetries :: "int option"
  opt_overloadBackoffDelays :: "js_number list option"
  opt_maxOtherRetries :: "int option"
  opt_otherRetryDelay :: "js_number option"

definition no_overrides :: PartialRetryConfig where
  "no_overrides =
     \<lparr> opt_maxOverloadRetries = None, opt_overloadBackoffDelays = None,
       opt_maxOtherRetries = None, opt_otherRetryDelay = None \<rparr>"

definition spread :: "'a \<Rightarrow> 'a option \<Rightarrow> 'a" where
  "spread d v = (case v of None \<Rightarrow> d | Some x \<Rightarrow> x)"

definition merge_config :: "PartialRetryConfig \<Rightarrow> RetryConfig" where
  \<comment> \<open>\<open>const fullConfig = { ...DEFAULT_RETRY_CONFIG, ...config }\<close>\<close>
  "merge_config config =
     \<lparr> maxOverloadRetries =
         spread (maxOverloadRetries DEFAULT_RETRY_CONFIG) (opt_maxOverloadRetries config),
       overloadBackoffDelays =
         spread (overloadBackoffDelays DEFAULT_RETRY_CONFIG) (opt_overloadBackoffDelays config),
       maxOtherRetries =
         spread (maxOtherRetries DEFAULT_RETRY_CONFIG) (opt_maxOtherRetries config),
       otherRetryDelay =
         spread (otherRetryDelay DEFAULT_RETRY_CONFIG) (opt_otherRetryDelay config) \<rparr>"

definition isOverloadedError :: "js_error \<Rightarrow> bool" where
  "isOverloadedError error =
     (let errorMessage = toLowerCase (message error)
      in str_includes errorMessage ''status 529'' \<or>
         str_includes errorMessage ''status 429'' \<or>
         str_includes errorMessage ''status 503'' \<or>
         str_includes errorMessage ''overloaded'' \<or>
         str_includes errorMessage ''overload_error'' \<or>
         str_includes errorMessage ''rate limit'' \<or>
         str_includes errorMessage ''service unavailable'')"

text \<open>
  The regular expression \<open>/retry[- ]after[:\s]+(\d+)/i\<close>. Under the flag \<open>i\<close> a
  letter of the pattern accepts itself and its upper case. The classes \<open>[:\s]\<close>
  and \<open>\d\<close> are disjoint, so the greedy \<open>+\<close> never gives a character back: each run
  is the longest one.
\<close>

fun match_literal :: "string \<Rightarrow> string \<Rightarrow> string option" where
  \<comment> \<open>Match the lower-case pattern text at the start of the input, ignoring case;
      the result is the rest of the input.\<close>
  "match_literal [] s = Some s"
| "match_literal (p # ps) [] = None"
| "match_literal (p # ps) (c # s) =
     (if toLowerCase_char c = p then match_literal ps s else None)"

definition is_sep :: "char \<Rightarrow> bool" where
  \<comment> \<open>The class \<open>[:\s]\<close>.\<close>
  "is_sep c = (c = CHR '':'' \<or> is_space c)"

definition match_here :: "string \<Rightarrow> string option" where
  \<comment> \<open>The whole pattern at the start of the input; the result is capture group 1.\<close>
  "match_here s =
     (case match_literal ''retry'' s of
        None \<Rightarrow> None
      | Some s1 \<Rightarrow>
          (case s1 of
             [] \<Rightarrow> None
           | c # s2 \<Rightarrow>
               if c = CHR ''-'' \<or> c = CHR '' '' then
                 (case match_literal ''after'' s2 of
                    None \<Rightarrow> None
                  | Some s3 \<Rightarrow>
                      (let seps = takeWhile is_sep s3;
                           digits = takeWhile is_digit (dropWhile is_sep s3)
                       in if seps = [] \<or> digits = [] then None else Some digits))
               else None))"

fun regex_match :: "string \<Rightarrow> string option" where
  \<comment> \<open>\<open>message.match(...)\<close>: the leftmost position where the pattern matches.\<close>
  "regex_match [] = match_here []"
| "regex_match (c # s) =
     (case match_here (c # s) of Some digits \<Rightarrow> Some digits | None \<Rightarrow> regex_match s)"

definition extractRetryAfter :: "js_error \<Rightarrow> js_number option" where
  \<comment> \<open>\<open>None\<close> is \<open>null\<close>.\<close>
  "extractRetryAfter error =
     (case regex_match (message error) of
        Some digits \<Rightarrow> Some (js_times (parseInt digits) (Finite 1000))
      | None \<Rightarrow> None)"

definition maxRetries :: "RetryConfig \<Rightarrow> js_error \<Rightarrow> int" where
  "maxRetries fullConfig lastError =
     (if isOverloadedError lastError then maxOverloadRetries fullConfig
      else maxOtherRetries fullConfig)"

definition backoff_delay :: "RetryConfig \<Rightarrow> nat \<Rightarrow> js_number option" where
  "backoff_delay fullConfig attemptNumber =
     array_get (overloadBackoffDelays fullConfig)
       (min (int attemptNumber - 1) (int (length (overloadBackoffDelays fullConfig)) - 1))"

definition calculate_delay :: "RetryConfig \<Rightarrow> js_error \<Rightarrow> nat \<Rightarrow> js_number option" where
  \<comment> \<open>The block "Calculate delay", entered with \<open>attemptNumber \<ge> 1\<close>. The test
      \<open>if (retryAfter)\<close> is false for \<open>null\<close>, for \<open>0\<close> and for NaN. The result
      \<open>None\<close> is \<open>undefined\<close>, read from an empty schedule.\<close>
  "calculate_delay fullConfig lastError attemptNumber =
     (if isOverloadedError lastError then
        (case extractRetryAfter lastError of
           None \<Rightarrow> backoff_delay fullConfig attemptNumber
         | Some retryAfter \<Rightarrow>
             if retryAfter \<noteq> Finite 0 \<and> retryAfter \<noteq> NaN then Some retryAfter
             else backoff_delay fullConfig attemptNumber)
      else Some (js_times (otherRetryDelay fullConfig) (Math_pow2 (attemptNumber - 1))))"

definition sleepWithCountdown :: "js_number option \<Rightarrow> bool" where
  \<comment> \<open>Whether \<open>await sleepWithCountdown(delay, callback)\<close> returns. It loops while
      \<open>Date.now() < startTime + delay\<close>, sleeping at most a second per round: with a finite
      delay the clock passes the end time; with NaN, \<open>undefined\<close> or a negative delay
      the test fails at once; with \<open>Infinity\<close> it never fails.\<close>
  "sleepWithCountdown delay = (delay \<noteq> Some Infinity)"

text \<open>
  One pass through the body of \<open>while (true)\<close>, up to the sleep. The function \<open>fn\<close> is given by its
  outcomes: \<open>fn k\<close> is what its invocation number \<open>k\<close> (counted from 0) does, \<open>Inl\<close> a
  thrown error and \<open>Inr\<close> a result. Every earlier invocation has failed when the loop
  invokes \<open>fn\<close> again, so the invocation made with counter \<open>attemptNumber\<close> is number
  \<open>attemptNumber\<close>.
\<close>

datatype 'a iteration = Return 'a | Rethrow js_error | Retry nat "js_number option"

definition iteration :: "(nat \<Rightarrow> js_error + 'a) \<Rightarrow> RetryConfig \<Rightarrow> nat \<Rightarrow> 'a iteration" where
  "iteration fn fullConfig attemptNumber =
     (case fn attemptNumber of
        Inr result \<Rightarrow> Return result
      | Inl lastError \<Rightarrow>
          (let attemptNumber' = attemptNumber + 1
           in if int attemptNumber' > maxRetries fullConfig lastError then Rethrow lastError
              else Retry attemptNumber' (calculate_delay fullConfig lastError attemptNumber')))"

text \<open>
  The whole call. Its outcome is \<open>Some (Inr result)\<close> when it returns, \<open>Some (Inl error)\<close>
  when it throws, and \<open>None\<close> when it does neither because a sleep never returns;
  \<open>sleeps\<close> lists the delays of the sleeps it began. The caps are integers, so the
  counter passes them and the recursion ends. (The counter is exact as a double for fewer
  than \<open>2^53\<close> failures.)
\<close>

record 'a retry_run =
  outcome :: "(js_error + 'a) option"
  invocations :: nat
  sleeps :: "js_number option list"

function retry_loop ::
  "(nat \<Rightarrow> js_error + 'a) \<Rightarrow> RetryConfig \<Rightarrow> nat \<Rightarrow> js_number option list \<Rightarrow> 'a retry_run" where
  "retry_loop fn fullConfig attemptNumber slept =
     (case iteration fn fullConfig attemptNumber of
        Return result \<Rightarrow>
          \<lparr> outcome = Some (Inr result), invocations = attemptNumber + 1, sleeps = slept \<rparr>
      | Rethrow lastError \<Rightarrow>
          \<lparr> outcome = Some (Inl lastError), invocations = attemptNumber + 1, sleeps = slept \<rparr>
      | Retry attemptNumber' delay \<Rightarrow>
          if sleepWithCountdown delay
          then retry_loop fn fullConfig attemptNumber' (slept @ [delay])
          else \<lparr> outcome = None, invocations = attemptNumber + 1, sleeps = slept @ [delay] \<rparr>)"
  by pat_completeness auto
termination
proof (relation "measure (\<lambda>(fn, c, n, sl).
         nat (max (maxOverloadRetries c) (maxOtherRetries c)) + 1 - n)")
  show "wf (measure (\<lambda>(fn :: nat \<Rightarrow> js_error + 'a, c, n, sl :: js_number option list).
         nat (max (maxOverloadRetries c) (maxOtherRetries c)) + 1 - n))"
    by simp
next
  fix fn :: "nat \<Rightarrow> js_error + 'a" and fullConfig attemptNumber slept attemptNumber' delay
  assume "iteration fn fullConfig attemptNumber = Retry attemptNumber' delay"
  then have "attemptNumber' = attemptNumber + 1"
    and "int attemptNumber' \<le> max (maxOverloadRetries fullConfig) (maxOtherRetries fullConfig)"
    by (auto simp: iteration_def maxRetries_def Let_def split: sum.splits if_splits)
  then show "((fn, fullConfig, attemptNumber', slept @ [delay]),
              (fn, fullConfig, attemptNumber, slept))
             \<in> measure (\<lambda>(fn, c, n, sl).
                  nat (max (maxOverloadRetries c) (maxOtherRetries c)) + 1 - n)"
    by simp
qed

declare retry_loop.simps [simp del]

definition retryWithBackoff ::
  "(nat \<Rightarrow> js_error + 'a) \<Rightarrow> PartialRetryConfig \<Rightarrow> 'a retry_run" where
  "retryWithBackoff fn config = retry_loop fn (merge_config config) 0 []"

section \<open>The Anthropic adapter\<close>

record chat_message =
  role :: string
  content :: string

record request_body =
  model :: string
  messages :: "chat_message list"
  system :: "string option"
  max_tokens :: nat

definition slice_init :: "'a list \<Rightarrow> 'a list" where
  \<comment> \<open>\<open>xs.slice(0, -1)\<close>: the elements before index \<open>length - 1\<close>.\<close>
  "slice_init xs = take (length xs - 1) xs"

definition lastMessageIsSystem :: "chat_message list \<Rightarrow> bool" where
  \<comment> \<open>\<open>messages[messages.length - 1]?.role === 'system'\<close>: on an empty list the read
      is \<open>undefined\<close> and the comparison is false.\<close>
  "lastMessageIsSystem msgs =
     (case array_get msgs (int (length msgs) - 1) of
        None \<Rightarrow> False
      | Some m \<Rightarrow> role m = ''system'')"

definition buildRequestBody ::
  "string \<Rightarrow> chat_message list \<Rightarrow> bool \<Rightarrow> js_error + request_body" where
  \<comment> \<open>The model identifier \<open>anthropicModel\<close> comes from the adapter's configuration and is
      a parameter here. Reading \<open>.content\<close> of \<open>undefined\<close> throws a TypeError.\<close>
  "buildRequestBody anthropicModel msgs lastIsSystem =
     (if lastIsSystem then
        (case array_get msgs (int (length msgs) - 1) of
           None \<Rightarrow>
             Inl \<lparr> err_class = TypeError,
                   message = ''Cannot read properties of undefined'' \<rparr>
         | Some m \<Rightarrow>
             Inr \<lparr> model = anthropicModel, messages = slice_init msgs,
                   system = Some (content m), max_tokens = 500 \<rparr>)
      else
        Inr \<lparr> model = anthropicModel, messages = msgs, system = None, max_tokens = 500 \<rparr>)"

definition request_of :: "string \<Rightarrow> chat_message list \<Rightarrow> js_error + request_body" where
  \<comment> \<open>The body \<open>getChatCompletion\<close> sends:
      \<open>buildRequestBody(messages, lastMessageIsSystem)\<close>.\<close>
  "request_of anthropicModel msgs =
     buildRequestBody anthropicModel msgs (lastMessageIsSystem msgs)"

text \<open>
  A response as the adapter reads it: the flag \<open>ok\<close>, the status code, the body text that
  \<open>response.text()\<close> yields, and what \<open>response.json()\<close> yields: the error it
  throws when the body is not JSON, otherwise the \<open>text\<close> of each block of
  \<open>data.content\<close>.
  The rate-limit headers are only logged.
\<close>

record response =
  ok :: bool
  status :: nat
  body :: string
  json :: "js_error + string list"

definition handleApiResponse :: "response \<Rightarrow> js_error + string" where
  "handleApiResponse resp =
     (if \<not> ok resp \<or> status resp \<ge> 400 then
        Inl \<lparr> err_class = Error,
              message = ''HTTP error calling API: got status '' @ number_toString (status resp)
                        @ ''. Response: '' @ body resp \<rparr>
      else
        (case json resp of
           Inl error \<Rightarrow> Inl error
         | Inr [] \<Rightarrow>
             Inl \<lparr> err_class = TypeError,
                   message = ''Cannot read properties of undefined'' \<rparr>
         | Inr (t # ts) \<Rightarrow> Inr t))"

definition api_call ::
  "string \<Rightarrow> chat_message list \<Rightarrow> (request_body \<Rightarrow> js_error + response) \<Rightarrow> js_error + string" where
  \<comment> \<open>The function handed to \<open>retryWithBackoff\<close>: \<open>fetch\<close> is what the network does
      with this request, a thrown error or a response.\<close>
  "api_call anthropicModel msgs fetch =
     (let attempt =
            (case request_of anthropicModel msgs of
               Inl err \<Rightarrow> Inl err
             | Inr request \<Rightarrow>
                 (case fetch request of
                    Inl err \<Rightarrow> Inl err
                  | Inr resp \<Rightarrow> handleApiResponse resp))
      in case attempt of
           Inr result \<Rightarrow> Inr result
         | Inl error \<Rightarrow>
             if err_class error = TypeError \<and> str_includes (message error) ''Failed to fetch''
             then Inl \<lparr> err_class = Error,
                        message = ''Failed to connect to Anthropic API. Please check your internet connection and API key.'' \<rparr>
             else Inl error)"

definition getChatCompletion ::
  "string \<Rightarrow> chat_message list \<Rightarrow> (nat \<Rightarrow> request_body \<Rightarrow> js_error + response) \<Rightarrow> string retry_run" where
  \<comment> \<open>One dispatch once its slot is granted: \<open>network k\<close> is what the \<open>fetch\<close> of
      invocation number \<open>k\<close> does. The adapter overrides no retry option.\<close>
  "getChatCompletion anthropicModel msgs network =
     retryWithBackoff (\<lambda>k. api_call anthropicModel msgs (network k)) no_overrides"

section \<open>The concurrency governor\<close>

text \<open>
  \<open>pLimit(n)\<close> builds a limiter: a counter of running functions, here the list of the
  tasks that hold a slot, and a FIFO queue of waiting ones. It rejects a limit below 1
  with a TypeError. A function handed to the limiter is queued and started when fewer than
  \<open>n\<close> are running; when a running one settles, the head of the queue starts.
  JavaScript runs one event at a time, so the governor is a state changed by events.
\<close>

type_synonym task = nat

record limiter =
  concurrency :: nat
  running :: "task list"
  queue :: "task list"

definition pLimit :: "nat \<Rightarrow> js_error + limiter" where
  "pLimit n =
     (if 1 \<le> n then Inr \<lparr> concurrency = n, running = [], queue = [] \<rparr>
      else Inl \<lparr> err_class = TypeError,
                 message = ''Expected concurrency to be a number from 1 and up'' \<rparr>)"

definition enqueue :: "limiter \<Rightarrow> task \<Rightarrow> limiter" where
  \<comment> \<open>Queue the task; then, if a slot is free, start the head of the queue.\<close>
  "enqueue g t =
     (let g' = g\<lparr> queue := queue g @ [t] \<rparr>
      in case queue g' of
           [] \<Rightarrow> g'
         | u # us \<Rightarrow>
             if length (running g') < concurrency g'
             then g'\<lparr> running := running g' @ [u], queue := us \<rparr>
             else g')"

definition finish :: "limiter \<Rightarrow> task \<Rightarrow> limiter" where
  \<comment> \<open>A running task settles: its slot is given up and the head of the queue starts.\<close>
  "finish g t =
     (let g' = g\<lparr> running := remove1 t (running g) \<rparr>
      in case queue g' of
           [] \<Rightarrow> g'
         | u # us \<Rightarrow> g'\<lparr> running := running g' @ [u], queue := us \<rparr>)"

text \<open>
  The module state: the limiter \<open>globalRateLimit\<close> and the cached \<open>lastConcurrency\<close>.
  \<open>configured\<close> is what \<open>getCurrentConcurrency()\<close> returns at the moment. A limiter
  that \<open>updateRateLimit\<close> replaces is no longer reachable from the module, yet it lives on
  in the tasks it admitted or queued: \<open>detached\<close> keeps these limiters, newest first.
\<close>

record governor =
  configured :: nat
  globalRateLimit :: limiter
  lastConcurrency :: nat
  detached :: "limiter list"

definition module_init :: "nat \<Rightarrow> js_error + governor" where
  \<comment> \<open>Loading the module with \<open>getCurrentConcurrency() = n\<close>.\<close>
  "module_init n =
     (case pLimit n of
        Inl err \<Rightarrow> Inl err
      | Inr g \<Rightarrow>
          Inr \<lparr> configured = n, globalRateLimit = g, lastConcurrency = n, detached = [] \<rparr>)"

definition updateRateLimit :: "governor \<Rightarrow> js_error + governor" where
  \<comment> \<open>The limiter it returns is \<open>globalRateLimit\<close> of the new state.\<close>
  "updateRateLimit s =
     (let currentConcurrency = configured s
      in if currentConcurrency \<noteq> lastConcurrency s then
           (case pLimit currentConcurrency of
              Inl err \<Rightarrow> Inl err
            | Inr g \<Rightarrow>
                Inr (s\<lparr> globalRateLimit := g,
                        lastConcurrency := currentConcurrency,
                        detached := globalRateLimit s # detached s \<rparr>))
         else Inr s)"

datatype event = SetConcurrency nat | Dispatch task | Settle task

fun settle_detached :: "limiter list \<Rightarrow> task \<Rightarrow> limiter list" where
  "settle_detached [] t = []"
| "settle_detached (g # gs) t =
     (if t \<in> set (running g) then finish g t # gs else g # settle_detached gs t)"

fun step :: "governor \<Rightarrow> event \<Rightarrow> governor" where
  \<comment> \<open>\<open>SetConcurrency\<close>: the operator changes the configured value.
      \<open>Dispatch\<close>: a call of \<open>getChatCompletion\<close>, \<open>updateRateLimit()(...)\<close>; a call
      in which \<open>pLimit\<close> throws leaves the module state as it was.
      \<open>Settle\<close>: the retried API call of a running task returns or throws.\<close>
  "step s (SetConcurrency n) = s\<lparr> configured := n \<rparr>"
| "step s (Dispatch t) =
     (case updateRateLimit s of
        Inl err \<Rightarrow> s
      | Inr s' \<Rightarrow> s'\<lparr> globalRateLimit := enqueue (globalRateLimit s') t \<rparr>)"
| "step s (Settle t) =
     (if t \<in> set (running (globalRateLimit s))
      then s\<lparr> globalRateLimit := finish (globalRateLimit s) t \<rparr>
      else s\<lparr> detached := settle_detached (detached s) t \<rparr>)"

definition run_events :: "governor \<Rightarrow> event list \<Rightarrow> governor" where
  "run_events s evs = foldl step s evs"

definition holding :: "governor \<Rightarrow> nat" where
  \<comment> \<open>The number of dispatches that hold an admission slot.\<close>
  "holding s =
     length (running (globalRateLimit s)) + sum_list (map (\<lambda>g. length (running g)) (detached s))"

section \<open>Specification-side notions\<close>

definition within_limit :: "limiter \<Rightarrow> bool" where
  "within_limit g = (length (running g) \<le> concurrency g)"

definition gates_bounded :: "governor \<Rightarrow> bool" where
  "gates_bounded s =
     (within_limit (globalRateLimit s) \<and>
      concurrency (globalRateLimit s) = lastConcurrency s \<and>
      list_all within_limit (detached s))"

definition overload_markers :: "string list" where
  "overload_markers =
     [''status 429'', ''status 503'', ''status 529'', ''overloaded'', ''overload_error'',
      ''rate limit'', ''service unavailable'']"

section \<open>Sample inputs\<close>

definition boom :: js_error where
  "boom = \<lparr> err_class = Error, message = ''boom'' \<rparr>"

definition busy :: js_error where
  "busy = \<lparr> err_class = Error, message = ''HTTP error calling API: got status 529. Response: overloaded_error'' \<rparr>"

definition broken :: js_error where
  "broken = \<lparr> err_class = Error, message = ''HTTP error calling API: got status 400. Response: bad request'' \<rparr>"

definition busy_then_broken :: "nat \<Rightarrow> js_error + string" where
  "busy_then_broken j = (if j < 3 then Inl busy else Inl broken)"

definition busy_retry_now :: js_error where
  "busy_retry_now = \<lparr> err_class = Error, message = ''overloaded_error, retry-after: 0'' \<rparr>"

definition limited_retry_now :: js_error where
  "limited_retry_now = \<lparr> err_class = Error, message = ''got status 429. Retry-After: 0'' \<rparr>"

definition limited_retry_later :: js_error where
  "limited_retry_later = \<lparr> err_class = Error, message = ''status 429 Retry-After: 30s'' \<rparr>"

definition patient :: js_error where
  "patient =
     \<lparr> err_class = Error,
       message = ''overloaded, retry-after: '' @ replicate 400 (CHR ''9'') \<rparr>"

definition broken_then_patient :: "nat \<Rightarrow> js_error + string" where
  "broken_then_patient j = (if j = 0 then Inl broken else Inl patient)"

definition broken_busy_broken :: "nat \<Rightarrow> js_error + string" where
  "broken_busy_broken j = (if 1 \<le> j \<and> j \<le> 3 then Inl busy else Inl broken)"

definition limited_retry_much_later :: js_error where
  "limited_retry_much_later =
     \<lparr> err_class = Error, message = ''status 429 retry-after: 9007199254740993'' \<rparr>"

definition question :: chat_message where
  "question = \<lparr> role = ''user'', content = ''Rate this applicant.'' \<rparr>"

definition rubric :: chat_message where
  "rubric = \<lparr> role = ''system'', content = ''Answer with FINAL_RANKING = n.'' \<rparr>"

definition overloaded_response :: response where
  "overloaded_response =
     \<lparr> ok = False, status = 529, body = ''overloaded_error'',
       json = Inl \<lparr> err_class = SyntaxError, message = ''Unexpected token o in JSON'' \<rparr> \<rparr>"

definition two_slots :: governor where
  "two_slots =
     \<lparr> configured = 2,
       globalRateLimit = \<lparr> concurrency = 2, running = [], queue = [] \<rparr>,
       lastConcurrency = 2, detached = [] \<rparr>"

section \<open>Strings: searching is containment\<close>

lemma str_includes_sublist: "str_includes s t \<longleftrightarrow> sublist t s"
  by (induction s) (simp_all add: sublist_Cons_right)

lemma sublist_append_right: "sublist xs ys \<Longrightarrow> sublist xs (ys @ zs)"
  unfolding sublist_def by (metis append.assoc)

lemma toLowerCase_append: "toLowerCase (s @ t) = toLowerCase s @ toLowerCase t"
  by (simp add: toLowerCase_def)

text \<open>
  Claim C2. \<open>isOverloadedError\<close> is true exactly when the lower-cased message
  contains one of the seven markers as a contiguous substring, that is, when the message
  can be cut as \<open>before @ marker @ after\<close>; when it contains none, the answer is false.
\<close>

theorem isOverloadedError_iff_marker:
  "isOverloadedError error \<longleftrightarrow>
     (\<exists>marker before after.
        marker \<in> set overload_markers \<and>
        toLowerCase (message error) = before @ marker @ after)"
proof -
  have "isOverloadedError error \<longleftrightarrow>
          (\<exists>marker \<in> set overload_markers. sublist marker (toLowerCase (message error)))"
    unfolding isOverloadedError_def overload_markers_def Let_def str_includes_sublist
    by auto
  then show ?thesis
    unfolding sublist_def by blast
qed

section \<open>Numbers: where rounding is exact and where it overflows\<close>

lemma bit_length_nonpos: "n \<le> 0 \<Longrightarrow> bit_length n = 0"
  by (simp add: bit_length.simps)

lemma bit_length_pos: "0 < n \<Longrightarrow> bit_length n = Suc (bit_length (n div 2))"
  by (subst bit_length.simps) simp

lemma bit_length_double: "0 < n \<Longrightarrow> bit_length (2 * n) = Suc (bit_length n)"
  by (simp add: bit_length_pos)

lemma bit_length_shift: "0 < a \<Longrightarrow> bit_length (a * 2 ^ k) = bit_length a + k"
proof (induction k)
  case 0
  then show ?case by simp
next
  case (Suc k)
  then have "bit_length (2 * (a * 2 ^ k)) = Suc (bit_length (a * 2 ^ k))"
    by (intro bit_length_double) simp
  then show ?case using Suc by (simp add: mult.commute mult.left_commute)
qed

lemma bit_length_le: "a < 2 ^ k \<Longrightarrow> bit_length a \<le> k"
proof (induction k arbitrary: a)
  case 0
  then show ?case by (simp add: bit_length_nonpos)
next
  case (Suc k)
  show ?case
  proof (cases "a \<le> 0")
    case True
    then show ?thesis by (simp add: bit_length_nonpos)
  next
    case False
    have "a div 2 < 2 ^ k" using Suc.prems by simp
    then have "bit_length (a div 2) \<le> k" by (rule Suc.IH)
    then show ?thesis using False by (simp add: bit_length_pos)
  qed
qed

lemma bit_length_upper: "a < 2 ^ bit_length a"
proof (induction a rule: bit_length.induct)
  case (1 n)
  show ?case
  proof (cases "n \<le> 0")
    case True
    then show ?thesis by (simp add: bit_length_nonpos)
  next
    case False
    then have "n div 2 < 2 ^ bit_length (n div 2)" by (rule "1.IH")
    then have "n < 2 * 2 ^ bit_length (n div 2)" by linarith
    then show ?thesis using False by (simp add: bit_length_pos)
  qed
qed

lemma bit_length_lower: "0 < a \<Longrightarrow> 2 ^ (bit_length a - 1) \<le> a"
proof (induction a rule: bit_length.induct)
  case (1 n)
  show ?case
  proof (cases "n div 2 \<le> 0")
    case True
    then have "bit_length n = 1"
      using "1.prems" by (simp add: bit_length_pos bit_length_nonpos)
    then show ?thesis using "1.prems" by simp
  next
    case False
    then have ih: "2 ^ (bit_length (n div 2) - 1) \<le> n div 2"
      using "1.IH" "1.prems" by simp
    have pos: "bit_length (n div 2) = Suc (bit_length (n div 2) - 1)"
      using False by (simp add: bit_length_pos)
    have "bit_length n - 1 = Suc (bit_length (n div 2) - 1)"
      using "1.prems" pos by (simp add: bit_length_pos)
    then have "(2::int) ^ (bit_length n - 1) = 2 * 2 ^ (bit_length (n div 2) - 1)"
      by simp
    also have "\<dots> \<le> 2 * (n div 2)" using ih by simp
    also have "\<dots> \<le> n" by simp
    finally show ?thesis .
  qed
qed

lemma round_magnitude_exact:
  assumes "0 \<le> a" and "a < 2 ^ 53" and "a * 2 ^ k < 2 ^ 1024"
  shows "round_magnitude (a * 2 ^ k) = Some (a * 2 ^ k)"
proof -
  define e where "e = bit_length (a * 2 ^ k) - 53"
  have "e \<le> k"
  proof (cases "a = 0")
    case True
    then show ?thesis by (simp add: e_def bit_length_nonpos)
  next
    case False
    then have "bit_length (a * 2 ^ k) = bit_length a + k"
      using assms(1) by (simp add: bit_length_shift)
    moreover have "bit_length a \<le> 53" using assms(2) by (rule bit_length_le)
    ultimately show ?thesis by (simp add: e_def)
  qed
  then have "(2::int) ^ e dvd 2 ^ k" by (rule le_imp_power_dvd)
  then have d: "(2::int) ^ e dvd a * 2 ^ k" by (rule dvd_mult)
  then have r: "(a * 2 ^ k) mod 2 ^ e = 0" by simp
  have q: "(a * 2 ^ k) div 2 ^ e * 2 ^ e = a * 2 ^ k" using d by simp
  show ?thesis
    unfolding round_magnitude_def Let_def e_def [symmetric] r
    using q assms(3) by simp
qed

lemma round_magnitude_overflow:
  assumes "2 ^ 1024 \<le> a"
  shows "round_magnitude a = None"
proof -
  define b where "b = bit_length a"
  define e where "e = b - 53"
  define q where "q = a div 2 ^ e"
  define m where "m = (if 2 * (a mod 2 ^ e) < 2 ^ e \<or> (2 * (a mod 2 ^ e) = 2 ^ e \<and> even q)
                       then q else q + 1)"
  have pos: "0 < a" using assms by (rule order_less_le_trans [rotated]) simp
  have lt: "(2::int) ^ 1024 < 2 ^ b"
    using assms bit_length_upper [of a] unfolding b_def by linarith
  have one: "(1::int) < 2" by simp
  have big: "1024 < b" using one lt by (rule power_less_imp_less_exp)
  then have split: "b - 1 = 52 + e" and le: "1024 \<le> b - 1" by (simp_all add: e_def)
  have eq: "(2::int) ^ 52 * 2 ^ e = 2 ^ (b - 1)" by (simp only: split power_add)
  have "(2::int) ^ (b - 1) \<le> a" using pos unfolding b_def by (rule bit_length_lower)
  then have "(2::int) ^ 52 * 2 ^ e \<le> a" by (simp only: eq)
  then have "(2::int) ^ 52 * 2 ^ e div 2 ^ e \<le> a div 2 ^ e"
    by (rule zdiv_mono1) simp
  then have "2 ^ 52 \<le> q" by (simp add: q_def)
  moreover have "q \<le> m" by (simp add: m_def)
  ultimately have "(2::int) ^ 52 * 2 ^ e \<le> m * 2 ^ e"
    by (intro mult_right_mono) simp_all
  then have "(2::int) ^ (b - 1) \<le> m * 2 ^ e" by (simp only: eq)
  moreover have "(2::int) ^ 1024 \<le> 2 ^ (b - 1)" using le by (rule power_increasing) simp
  ultimately have "\<not> m * 2 ^ e < 2 ^ 1024" by linarith
  then show ?thesis
    unfolding round_magnitude_def Let_def b_def [symmetric] e_def [symmetric]
      q_def [symmetric] m_def [symmetric]
    by simp
qed

lemma number_of_int_exact:
  assumes "\<bar>d\<bar> < 2 ^ 53" and "\<bar>d\<bar> * 2 ^ k < 2 ^ 1024"
  shows "number_of_int (d * 2 ^ k) = Finite (d * 2 ^ k)"
proof -
  have abs: "\<bar>d * 2 ^ k\<bar> = \<bar>d\<bar> * 2 ^ k" by (simp add: abs_mult)
  have "round_magnitude (\<bar>d\<bar> * 2 ^ k) = Some (\<bar>d\<bar> * 2 ^ k)"
    using assms by (intro round_magnitude_exact) simp_all
  then show ?thesis
    unfolding number_of_int_def abs
    by (auto simp: mult_less_0_iff zero_less_power)
qed

lemma number_of_int_safe:
  assumes "\<bar>i\<bar> < 2 ^ 53"
  shows "number_of_int i = Finite i"
proof -
  have "\<bar>i\<bar> * 2 ^ 0 < 2 ^ 1024"
    using assms by (simp add: order_less_trans [of _ "2 ^ 53"])
  then show ?thesis
    using number_of_int_exact [OF assms, of 0] by simp
qed

lemma number_of_int_overflow:
  assumes "2 ^ 1024 \<le> i"
  shows "number_of_int i = Infinity"
proof -
  have "0 \<le> i" using assms by (rule order_trans [rotated]) simp
  then have "\<bar>i\<bar> = i" by simp
  then show ?thesis
    using round_magnitude_overflow [OF assms] assms \<open>0 \<le> i\<close>
    by (simp add: number_of_int_def)
qed

section \<open>The retry loop\<close>


lemma iteration_Retry:
  assumes "fn k = Inl e" and "int (Suc k) \<le> maxRetries c e"
  shows "iteration fn c k = Retry (Suc k) (calculate_delay c e (Suc k))"
  using assms by (simp add: iteration_def)

lemma iteration_Rethrow:
  assumes "fn k = Inl e" and "maxRetries c e < int (Suc k)"
  shows "iteration fn c k = Rethrow e"
  using assms by (simp add: iteration_def)

lemma retry_loop_hangs:
  assumes "fn n = Inl e" and "int (Suc n) \<le> maxRetries c e"
    and "calculate_delay c e (Suc n) = Some Infinity"
  shows "retry_loop fn c n slept =
           \<lparr> outcome = None, invocations = Suc n, sleeps = slept @ [Some Infinity] \<rparr>"
  using assms
  by (simp add: retry_loop.simps [of fn c n] iteration_Retry sleepWithCountdown_def)

lemma retry_loop_failures:
  assumes fails: "\<And>j. j \<le> k \<Longrightarrow> fn j = Inl (e j)"
    and retried: "\<And>j. j < k \<Longrightarrow> int (Suc j) \<le> maxRetries c (e j)"
    and exhausted: "maxRetries c (e k) < int (Suc k)"
    and wakes: "\<And>j. j < k \<Longrightarrow> sleepWithCountdown (calculate_delay c (e j) (Suc j))"
    and start: "n \<le> k"
  shows "retry_loop fn c n slept =
           \<lparr> outcome = Some (Inl (e k)), invocations = Suc k,
             sleeps = slept @ map (\<lambda>j. calculate_delay c (e j) (Suc j)) [n..<k] \<rparr>"
  using start
proof (induction "k - n" arbitrary: n slept)
  case 0
  then have "n = k" by simp
  then show ?case
    using fails [of k] exhausted
    by (simp add: retry_loop.simps [of fn c k] iteration_Rethrow)
next
  case (Suc d)
  then have lt: "n < k" by simp
  have it: "iteration fn c n = Retry (Suc n) (calculate_delay c (e n) (Suc n))"
    using fails [of n] retried [of n] lt by (simp add: iteration_Retry)
  have "d = k - Suc n" and "Suc n \<le> k" using Suc.hyps(2) lt by simp_all
  then have "retry_loop fn c (Suc n) (slept @ [calculate_delay c (e n) (Suc n)]) =
      \<lparr> outcome = Some (Inl (e k)), invocations = Suc k,
        sleeps = (slept @ [calculate_delay c (e n) (Suc n)]) @
                 map (\<lambda>j. calculate_delay c (e j) (Suc j)) [Suc n..<k] \<rparr>"
    using Suc.hyps(1) by blast
  then show ?case
    using it lt wakes [of n] by (simp add: retry_loop.simps [of fn c n] upt_conv_Cons)
qed


lemma match_literal_append:
  "map toLowerCase_char a = p \<Longrightarrow> match_literal p (a @ s) = Some s"
  by (induction p arbitrary: a) auto

lemma digit_not_sep: "is_digit c \<Longrightarrow> \<not> is_sep c"
  by (auto simp: is_digit_def is_sep_def is_space_def Let_def)

lemma takeWhile_run:
  assumes "list_all P xs" and "case ys of [] \<Rightarrow> True | y # _ \<Rightarrow> \<not> P y"
  shows "takeWhile P (xs @ ys) = xs" and "dropWhile P (xs @ ys) = ys"
  using assms by (induction xs) (auto simp: list_all_iff split: list.splits)

lemma match_here_hint:
  assumes r: "toLowerCase r = ''retry''"
    and h: "h = CHR ''-'' \<or> h = CHR '' ''"
    and a: "toLowerCase a = ''after''"
    and seps: "seps \<noteq> []" "list_all is_sep seps"
    and digits: "digits \<noteq> []" "list_all is_digit digits"
    and rest: "case rest of [] \<Rightarrow> True | c # _ \<Rightarrow> \<not> is_digit c"
  shows "match_here (r @ [h] @ a @ seps @ digits @ rest) = Some digits"
proof -
  have m1: "match_literal ''retry'' (r @ [h] @ a @ seps @ digits @ rest)
              = Some ([h] @ a @ seps @ digits @ rest)"
    using r unfolding toLowerCase_def by (rule match_literal_append)
  have m2: "match_literal ''after'' (a @ seps @ digits @ rest) = Some (seps @ digits @ rest)"
    using a unfolding toLowerCase_def by (rule match_literal_append)
  have nd: "case digits @ rest of [] \<Rightarrow> True | y # _ \<Rightarrow> \<not> is_sep y"
    using digits by (cases digits) (auto simp: digit_not_sep)
  have t1: "takeWhile is_sep (seps @ digits @ rest) = seps"
    and t2: "dropWhile is_sep (seps @ digits @ rest) = digits @ rest"
    using takeWhile_run [OF seps(2) nd] by simp_all
  have t3: "takeWhile is_digit (digits @ rest) = digits"
    using takeWhile_run(1) [OF digits(2) rest] .
  show ?thesis
    unfolding match_here_def m1
    using h seps(1) digits(1) by (simp add: m2 t1 t2 t3 del: match_literal.simps)
qed

lemma regex_match_here: "match_here s = Some d \<Longrightarrow> regex_match s = Some d"
  by (cases s) simp_all

lemma regex_match_skip:
  assumes "list_all (\<lambda>i. match_here (drop i (before @ s)) = None) [0..<length before]"
  shows "regex_match (before @ s) = regex_match s"
  using assms
proof (induction before)
  case Nil
  then show ?case by simp
next
  case (Cons c before)
  have "0 \<in> set [0..<length (c # before)]" by simp
  then have "match_here (drop 0 ((c # before) @ s)) = None"
    using Cons.prems unfolding list_all_iff by blast
  then have here: "match_here ((c # before) @ s) = None" by simp
  have "list_all (\<lambda>i. match_here (drop i (before @ s)) = None) [0..<length before]"
    unfolding list_all_iff
  proof
    fix i assume "i \<in> set [0..<length before]"
    then have "Suc i \<in> set [0..<length (c # before)]" by auto
    then have "match_here (drop (Suc i) ((c # before) @ s)) = None"
      using Cons.prems unfolding list_all_iff by blast
    then show "match_here (drop i (before @ s)) = None" by simp
  qed
  then have "regex_match (before @ s) = regex_match s" by (rule Cons.IH)
  then show ?case using here by simp
qed

lemma extractRetryAfter_hint:
  assumes shape: "message e = before @ r @ [h] @ a @ seps @ digits @ rest"
    and r: "toLowerCase r = ''retry''"
    and h: "h = CHR ''-'' \<or> h = CHR '' ''"
    and a: "toLowerCase a = ''after''"
    and seps: "seps \<noteq> []" "list_all is_sep seps"
    and digits: "digits \<noteq> []" "list_all is_digit digits"
    and rest: "case rest of [] \<Rightarrow> True | c # _ \<Rightarrow> \<not> is_digit c"
    and first: "list_all (\<lambda>i. match_here (drop i (message e)) = None) [0..<length before]"
  shows "extractRetryAfter e = Some (js_times (parseInt digits) (Finite 1000))"
proof -
  have "regex_match (message e) = regex_match (r @ [h] @ a @ seps @ digits @ rest)"
    using first unfolding shape by (rule regex_match_skip)
  also have "\<dots> = Some digits"
    by (rule regex_match_here) (rule match_here_hint [OF r h a seps digits rest])
  finally show ?thesis by (simp add: extractRetryAfter_def)
qed


lemma default_caps:
  "maxOverloadRetries (merge_config no_overrides) = 5"
  "maxOtherRetries (merge_config no_overrides) = 3"
  by (simp_all add: merge_config_def no_overrides_def DEFAULT_RETRY_CONFIG_def spread_def)

lemma default_other_delay: "otherRetryDelay (merge_config no_overrides) = Finite 1000"
  by (simp add: merge_config_def no_overrides_def DEFAULT_RETRY_CONFIG_def spread_def)

lemma default_schedule:
  "overloadBackoffDelays DEFAULT_RETRY_CONFIG =
     [Finite 10000, Finite 20000, Finite 40000, Finite 60000, Finite 60000]"
  by (simp add: DEFAULT_RETRY_CONFIG_def)

lemma merged_schedule:
  "overloadBackoffDelays (merge_config no_overrides) =
     [Finite 10000, Finite 20000, Finite 40000, Finite 60000, Finite 60000]"
  by (simp add: merge_config_def no_overrides_def DEFAULT_RETRY_CONFIG_def spread_def)

lemma busy_overloaded: "isOverloadedError busy = True"
  by code_simp

lemma broken_not_overloaded: "isOverloadedError broken = False"
  by code_simp

lemma busy_no_hint: "extractRetryAfter busy = None"
  by code_simp

lemma other_delay_exact:
  assumes "\<not> isOverloadedError e" and "1 \<le> n" and "n \<le> 1024"
    and "otherRetryDelay c = Finite d" and "\<bar>d\<bar> < 2 ^ 53"
    and "\<bar>d\<bar> * 2 ^ (n - 1) < 2 ^ 1024"
  shows "calculate_delay c e n = Some (Finite (d * 2 ^ (n - 1)))"
proof -
  have "Math_pow2 (n - 1) = Finite (2 ^ (n - 1))"
    using assms(2,3) by (simp add: Math_pow2_def)
  then have "js_times (otherRetryDelay c) (Math_pow2 (n - 1)) = number_of_int (d * 2 ^ (n - 1))"
    using assms(4) by (simp add: js_times_def)
  also have "\<dots> = Finite (d * 2 ^ (n - 1))"
    using assms(5,6) by (rule number_of_int_exact)
  finally show ?thesis
    using assms(1) by (simp add: calculate_delay_def)
qed

lemma backoff_delay_nonempty:
  assumes "overloadBackoffDelays c \<noteq> []" and "1 \<le> n"
  shows "backoff_delay c n =
           Some (overloadBackoffDelays c ! min (n - 1) (length (overloadBackoffDelays c) - 1))"
proof -
  let ?ds = "overloadBackoffDelays c"
  have len: "0 < length ?ds" using assms(1) by simp
  have idx: "min (int n - 1) (int (length ?ds) - 1) = int (min (n - 1) (length ?ds - 1))"
  proof -
    have "int (n - 1) = int n - 1" using assms(2) by simp
    moreover have "int (length ?ds - 1) = int (length ?ds) - 1"
      using assms(1) by (cases ?ds) simp_all
    ultimately show ?thesis by (simp only: of_nat_min)
  qed
  have "min (n - 1) (length ?ds - 1) < length ?ds" using len by linarith
  then show ?thesis
    unfolding backoff_delay_def idx array_get_def by simp
qed

lemma backoff_delay_default:
  assumes "overloadBackoffDelays c =
             [Finite 10000, Finite 20000, Finite 40000, Finite 60000, Finite 60000]"
    and "1 \<le> n"
  shows "backoff_delay c n =
           Some (if n \<le> 5
                 then [Finite 10000, Finite 20000, Finite 40000, Finite 60000, Finite 60000] ! (n - 1)
                 else Finite 60000)"
proof (cases "n \<le> 5")
  case True
  then have "min (n - 1) (length (overloadBackoffDelays c) - 1) = n - 1"
    using assms by simp
  then show ?thesis
    using backoff_delay_nonempty [of c n] assms True by simp
next
  case False
  then have "min (n - 1) (length (overloadBackoffDelays c) - 1) = 4"
    using assms by simp
  then show ?thesis
    using backoff_delay_nonempty [of c n] assms False by simp
qed

lemma busy_delay:
  assumes "1 \<le> n"
  shows "calculate_delay (merge_config no_overrides) busy n \<noteq> Some Infinity"
proof -
  have "calculate_delay (merge_config no_overrides) busy n
          = backoff_delay (merge_config no_overrides) n"
    by (simp add: calculate_delay_def busy_overloaded busy_no_hint)
  then show ?thesis
    using backoff_delay_default [OF merged_schedule assms]
    by (auto simp: nth_Cons' split: if_splits)
qed

lemma broken_delay:
  assumes "1 \<le> n" and "n \<le> 10"
  shows "calculate_delay (merge_config no_overrides) broken n \<noteq> Some Infinity"
proof -
  have "(2::int) ^ (n - 1) \<le> 2 ^ 9" using assms by (intro power_increasing) simp_all
  then have "\<bar>1000\<bar> * (2::int) ^ (n - 1) < 2 ^ 1024" by simp
  then have "calculate_delay (merge_config no_overrides) broken n
               = Some (Finite (1000 * 2 ^ (n - 1)))"
    using assms by (intro other_delay_exact) (simp_all add: broken_not_overloaded default_other_delay)
  then show ?thesis by simp
qed

lemma digit_value_bounds:
  assumes "is_digit c"
  shows "0 \<le> digit_value c \<and> digit_value c \<le> 9"
proof -
  have "(of_char c :: int) = int (of_char c)" by (simp add: of_nat_of_char)
  then show ?thesis
    using assms by (simp add: is_digit_def digit_value_def Let_def)
qed

lemma digits_value_snoc: "digits_value (ds @ [c]) = 10 * digits_value ds + digit_value c"
  by (simp add: digits_value_def)

lemma digits_value_nonneg: "list_all is_digit ds \<Longrightarrow> 0 \<le> digits_value ds"
proof (induction ds rule: rev_induct)
  case Nil
  then show ?case by (simp add: digits_value_def)
next
  case (snoc c ds)
  then have "0 \<le> digits_value ds" and "0 \<le> digit_value c"
    by (simp_all add: digit_value_bounds)
  then show ?case by (simp add: digits_value_snoc)
qed

lemma hint_exact:
  assumes "list_all is_digit ds" and "digits_value ds * 1000 < 2 ^ 53"
  shows "js_times (parseInt ds) (Finite 1000) = Finite (digits_value ds * 1000)"
proof -
  have nonneg: "0 \<le> digits_value ds" using assms(1) by (rule digits_value_nonneg)
  then have small: "\<bar>digits_value ds\<bar> < 2 ^ 53" using assms(2) by simp
  have "\<bar>digits_value ds * 1000\<bar> < 2 ^ 53" using nonneg assms(2) by simp
  then have "number_of_int (digits_value ds * 1000) = Finite (digits_value ds * 1000)"
    by (rule number_of_int_safe)
  then show ?thesis
    by (simp add: parseInt_def number_of_int_safe [OF small] js_times_def)
qed

lemma digits_value_nines: "digits_value (replicate n (CHR ''9'')) = 10 ^ n - 1"
proof (induction n)
  case 0
  then show ?case by (simp add: digits_value_def)
next
  case (Suc n)
  have "replicate (Suc n) (CHR ''9'') = replicate n (CHR ''9'') @ [CHR ''9'']"
    by (simp add: replicate_append_same)
  then show ?case
    using Suc by (simp only: digits_value_snoc) (simp add: digit_value_def)
qed

lemma nines_overflow: "js_times (parseInt (replicate 400 (CHR ''9''))) (Finite 1000) = Infinity"
proof -
  have "(2::int) ^ 1024 < 2 ^ 1200" by (rule power_strict_increasing) simp_all
  also have "(2::int) ^ 1200 = (2 ^ 3) ^ 400" by (simp only: power_mult [symmetric]) simp
  also have "\<dots> \<le> 10 ^ 400" by (rule power_mono) simp_all
  finally have "(2::int) ^ 1024 \<le> 10 ^ 400 - 1" by linarith
  then have "number_of_int (10 ^ 400 - 1) = Infinity" by (rule number_of_int_overflow)
  then show ?thesis
    by (simp add: parseInt_def digits_value_nines js_times_def sign_of_def)
qed

lemma patient_overloaded: "isOverloadedError patient = True"
proof -
  have "str_includes (toLowerCase ''overloaded, retry-after: '') ''overloaded''"
    by code_simp
  then have "sublist ''overloaded'' (toLowerCase ''overloaded, retry-after: '')"
    by (simp only: str_includes_sublist)
  then have "sublist ''overloaded''
      (toLowerCase ''overloaded, retry-after: '' @ toLowerCase (replicate 400 (CHR ''9'')))"
    by (rule sublist_append_right)
  then have "str_includes (toLowerCase (message patient)) ''overloaded''"
    by (simp only: str_includes_sublist toLowerCase_append patient_def js_error.simps)
  then show ?thesis by (simp add: isOverloadedError_def)
qed

lemma patient_hint: "extractRetryAfter patient = Some Infinity"
proof -
  have shape: "message patient =
      ''overloaded, '' @ ''retry'' @ [CHR ''-''] @ ''after'' @ '': '' @ replicate 400 (CHR ''9'') @ []"
    by (simp add: patient_def)
  have r: "toLowerCase ''retry'' = ''retry''" by code_simp
  have h: "CHR ''-'' = CHR ''-'' \<or> CHR ''-'' = CHR '' ''" by simp
  have a: "toLowerCase ''after'' = ''after''" by code_simp
  have s1: "'': '' \<noteq> []" by simp
  have s2: "list_all is_sep '': ''" by code_simp
  have d1: "replicate 400 (CHR ''9'') \<noteq> []" by simp
  have nine: "is_digit (CHR ''9'')" by code_simp
  then have d2: "list_all is_digit (replicate 400 (CHR ''9''))" by (simp add: list_all_iff)
  have rest: "case [] :: string of [] \<Rightarrow> True | c # _ \<Rightarrow> \<not> is_digit c" by simp
  have none: "list_all (\<lambda>i. match_here (drop i (''overloaded, '' @ s)) = None)
                [0..<length ''overloaded, '']" for s
    by (simp add: upt_rec match_here_def toLowerCase_char_def Let_def)
  have first: "list_all (\<lambda>i. match_here (drop i (message patient)) = None)
                 [0..<length ''overloaded, '']"
    unfolding shape by (rule none)
  show ?thesis
    using extractRetryAfter_hint [OF shape r h a s1 s2 d1 d2 rest first]
    by (simp only: nines_overflow)
qed

lemma patient_delay: "calculate_delay c patient n = Some Infinity"
  by (simp add: calculate_delay_def patient_overloaded patient_hint)

text \<open>
  Claim C1 as stated fails when a sleep never returns. The error below is of the overload
  class on every invocation and carries a retry-after hint of 400 digits: the hint parses to
  \<open>Infinity\<close>, the first sleep never ends, and the call neither re-raises the error nor
  invokes the function again.
\<close>

theorem endless_sleep_never_rethrows:
  "isOverloadedError patient \<and>
   outcome (retryWithBackoff (\<lambda>j. Inl patient :: js_error + string) no_overrides) = None \<and>
   invocations (retryWithBackoff (\<lambda>j. Inl patient :: js_error + string) no_overrides) = 1 \<and>
   sleeps (retryWithBackoff (\<lambda>j. Inl patient :: js_error + string) no_overrides)
     = [Some Infinity]"
proof -
  have "retry_loop (\<lambda>j. Inl patient :: js_error + string) (merge_config no_overrides) 0 [] =
      \<lparr> outcome = None, invocations = Suc 0, sleeps = [] @ [Some Infinity] \<rparr>"
    by (rule retry_loop_hangs [where e = patient])
      (simp_all add: maxRetries_def patient_overloaded default_caps patient_delay)
  then show ?thesis
    by (simp add: retryWithBackoff_def patient_overloaded)
qed

text \<open>
  Claim C1, amended. Let \<open>fn\<close> fail on every invocation, always with errors of one class,
  let \<open>cap\<close> be \<open>maxOverloadRetries\<close> for the overload class and \<open>maxOtherRetries\<close>
  otherwise, and let every sleep before the last failure return (no delay is \<open>Infinity\<close>).
  Then \<open>retryWithBackoff\<close> ends by re-raising the very error of the last invocation; it
  has invoked \<open>fn\<close> exactly \<open>cap + 1\<close> times, the first attempt and \<open>cap\<close> retries, all
  failed, and makes no further retry. A failure is retried exactly when its attempt number
  is at most \<open>cap\<close>, and re-raised exactly when it is larger. (A negative \<open>cap\<close> counts as
  no retry: \<open>nat cap = 0\<close>.)
\<close>

theorem single_class_exhaustion:
  assumes fails: "\<And>j. fn j = Inl (e j)"
    and single: "\<And>j. isOverloadedError (e j) = overload"
    and cap: "cap = (if overload then maxOverloadRetries (merge_config config)
                     else maxOtherRetries (merge_config config))"
    and wakes: "\<And>j. j < nat cap \<Longrightarrow>
                  calculate_delay (merge_config config) (e j) (Suc j) \<noteq> Some Infinity"
  shows "outcome (retryWithBackoff fn config) = Some (Inl (e (nat cap))) \<and>
         invocations (retryWithBackoff fn config) = nat cap + 1 \<and>
         length (sleeps (retryWithBackoff fn config)) = nat cap \<and>
         (\<forall>j. (\<exists>delay. iteration fn (merge_config config) j = Retry (Suc j) delay)
                \<longleftrightarrow> int (Suc j) \<le> cap) \<and>
         (\<forall>j. iteration fn (merge_config config) j = Rethrow (e j) \<longleftrightarrow> cap < int (Suc j))"
proof -
  let ?c = "merge_config config"
  have mr: "maxRetries ?c (e j) = cap" for j
    using single [of j] cap by (simp add: maxRetries_def)
  have "retry_loop fn ?c 0 [] =
          \<lparr> outcome = Some (Inl (e (nat cap))), invocations = Suc (nat cap),
            sleeps = [] @ map (\<lambda>j. calculate_delay ?c (e j) (Suc j)) [0..<nat cap] \<rparr>"
  proof (rule retry_loop_failures)
    show "fn j = Inl (e j)" for j by (rule fails)
    show "int (Suc j) \<le> maxRetries ?c (e j)" if "j < nat cap" for j
      using that by (simp add: mr)
    show "maxRetries ?c (e (nat cap)) < int (Suc (nat cap))"
      by (simp add: mr)
    show "sleepWithCountdown (calculate_delay ?c (e j) (Suc j))" if "j < nat cap" for j
      using that wakes by (simp add: sleepWithCountdown_def)
    show "0 \<le> nat cap" by simp
  qed
  then have run: "outcome (retryWithBackoff fn config) = Some (Inl (e (nat cap)))"
      "invocations (retryWithBackoff fn config) = nat cap + 1"
      "length (sleeps (retryWithBackoff fn config)) = nat cap"
    by (simp_all add: retryWithBackoff_def)
  have it: "iteration fn ?c j =
              (if cap < int (Suc j) then Rethrow (e j)
               else Retry (Suc j) (calculate_delay ?c (e j) (Suc j)))" for j
    using fails [of j] by (simp add: iteration_def mr)
  have "(\<exists>delay. iteration fn ?c j = Retry (Suc j) delay) \<longleftrightarrow> int (Suc j) \<le> cap" for j
    by (auto simp: it)
  moreover have "iteration fn ?c j = Rethrow (e j) \<longleftrightarrow> cap < int (Suc j)" for j
    by (auto simp: it)
  ultimately show ?thesis using run by blast
qed

lemma boom_not_overloaded: "isOverloadedError boom = False"
  by code_simp

theorem single_class_exhaustion_witness:
  "outcome (retryWithBackoff (\<lambda>j. Inl boom :: js_error + string) no_overrides)
     = Some (Inl boom) \<and>
   invocations (retryWithBackoff (\<lambda>j. Inl boom :: js_error + string) no_overrides) = 4 \<and>
   sleeps (retryWithBackoff (\<lambda>j. Inl boom :: js_error + string) no_overrides)
     = [Some (Finite 1000), Some (Finite 2000), Some (Finite 4000)] \<and>
   outcome (retryWithBackoff (\<lambda>j. Inl busy :: js_error + string) no_overrides)
     = Some (Inl busy) \<and>
   invocations (retryWithBackoff (\<lambda>j. Inl busy :: js_error + string) no_overrides) = 6"
proof -
  have cap': "(5 :: int) = (if True then maxOverloadRetries (merge_config no_overrides)
                            else maxOtherRetries (merge_config no_overrides))"
    by (simp add: default_caps)
  have wakes': "calculate_delay (merge_config no_overrides) busy (Suc j) \<noteq> Some Infinity"
    if "j < nat 5" for j
    using busy_delay [of "Suc j"] by simp
  have cap: "(3 :: int) = (if False then maxOverloadRetries (merge_config no_overrides)
                           else maxOtherRetries (merge_config no_overrides))"
    by (simp add: default_caps)
  have wakes: "calculate_delay (merge_config no_overrides) boom (Suc j) \<noteq> Some Infinity"
    if "j < nat 3" for j
  proof -
    have "(2::int) ^ j \<le> 2 ^ 2" using that by (intro power_increasing) simp_all
    then have "\<bar>1000\<bar> * (2::int) ^ (Suc j - 1) < 2 ^ 1024" by simp
    then have "calculate_delay (merge_config no_overrides) boom (Suc j)
                 = Some (Finite (1000 * 2 ^ (Suc j - 1)))"
      using that by (intro other_delay_exact) (simp_all add: boom_not_overloaded default_other_delay)
    then show ?thesis by simp
  qed
  have s: "sleeps (retryWithBackoff (\<lambda>j. Inl boom :: js_error + string) no_overrides)
     = [Some (Finite 1000), Some (Finite 2000), Some (Finite 4000)]"
    by code_simp
  show ?thesis
    using single_class_exhaustion [where fn = "\<lambda>j. Inl boom :: js_error + string"
        and e = "\<lambda>j. boom" and overload = False and cap = 3 and config = no_overrides,
        OF refl boom_not_overloaded cap wakes]
      single_class_exhaustion [where fn = "\<lambda>j. Inl busy :: js_error + string"
        and e = "\<lambda>j. busy" and overload = True and cap = 5 and config = no_overrides,
        OF refl busy_overloaded cap' wakes'] s
    by simp
qed

text \<open>
  Claim C10 as stated fails for the same reason: \<open>fn\<close> fails first with an error outside the
  overload class and then with overload-class errors whose hint parses to \<open>Infinity\<close>. The
  second failure is within its cap, the sleep that follows never returns, and no failure is
  ever re-raised.
\<close>

theorem mixed_run_stalls:
  "\<not> isOverloadedError broken \<and> isOverloadedError patient \<and>
   outcome (retryWithBackoff broken_then_patient no_overrides) = None \<and>
   invocations (retryWithBackoff broken_then_patient no_overrides) = 2 \<and>
   sleeps (retryWithBackoff broken_then_patient no_overrides)
     = [Some (Finite 1000), Some Infinity]"
proof -
  let ?c = "merge_config no_overrides"
  have first: "iteration broken_then_patient ?c 0 = Retry (Suc 0) (calculate_delay ?c broken (Suc 0))"
    by (rule iteration_Retry [where e = broken])
      (simp_all add: broken_then_patient_def maxRetries_def broken_not_overloaded default_caps)
  have d: "calculate_delay ?c broken (Suc 0) = Some (Finite 1000)"
    using other_delay_exact [of broken "Suc 0" ?c 1000]
    by (simp add: broken_not_overloaded default_other_delay)
  have "retry_loop broken_then_patient ?c (Suc 0) [Some (Finite 1000)] =
      \<lparr> outcome = None, invocations = Suc (Suc 0),
        sleeps = [Some (Finite 1000)] @ [Some Infinity] \<rparr>"
    by (rule retry_loop_hangs [where e = patient])
      (simp_all add: broken_then_patient_def maxRetries_def patient_overloaded default_caps
        patient_delay)
  then have "retry_loop broken_then_patient ?c 0 [] =
      \<lparr> outcome = None, invocations = 2, sleeps = [Some (Finite 1000), Some Infinity] \<rparr>"
    by (simp add: retry_loop.simps [of broken_then_patient ?c 0] first d sleepWithCountdown_def)
  then show ?thesis
    by (simp add: retryWithBackoff_def broken_not_overloaded patient_overloaded)
qed

text \<open>
  Claim C10, amended. The counter of failures is shared by both classes while the cap is
  chosen anew from the class of each failure, \<open>maxOverloadRetries\<close> for an overload-class
  failure and \<open>maxOtherRetries\<close> for any other. When the failures number \<open>1\<close> to \<open>k\<close> are
  each within the cap of their own class, the sleeps after them return (no delay is
  \<open>Infinity\<close>), and the failure number \<open>k + 1\<close> exceeds the cap of its class, the loop
  re-raises that failure. So a failure outside the overload class that arrives as failure
  number \<open>maxOtherRetries + 1\<close> after overload-class failures ends the dispatch, although
  fewer than \<open>maxOtherRetries\<close> failures outside that class occurred.
\<close>

theorem mixed_class_exhaustion:
  assumes fails: "\<And>j. j \<le> k \<Longrightarrow> fn j = Inl (e j)"
    and retried: "\<And>j. j < k \<Longrightarrow>
        int (Suc j) \<le> (if isOverloadedError (e j) then maxOverloadRetries (merge_config config)
                        else maxOtherRetries (merge_config config))"
    and exceeds: "(if isOverloadedError (e k) then maxOverloadRetries (merge_config config)
                   else maxOtherRetries (merge_config config)) < int (Suc k)"
    and wakes: "\<And>j. j < k \<Longrightarrow>
        calculate_delay (merge_config config) (e j) (Suc j) \<noteq> Some Infinity"
  shows "outcome (retryWithBackoff fn config) = Some (Inl (e k)) \<and>
         invocations (retryWithBackoff fn config) = Suc k \<and>
         length (sleeps (retryWithBackoff fn config)) = k"
proof -
  have "retry_loop fn (merge_config config) 0 [] =
          \<lparr> outcome = Some (Inl (e k)), invocations = Suc k,
            sleeps = [] @ map (\<lambda>j. calculate_delay (merge_config config) (e j) (Suc j)) [0..<k] \<rparr>"
  proof (rule retry_loop_failures)
    show "fn j = Inl (e j)" if "j \<le> k" for j using that by (rule fails)
    show "int (Suc j) \<le> maxRetries (merge_config config) (e j)" if "j < k" for j
      using retried [OF that] by (simp add: maxRetries_def)
    show "maxRetries (merge_config config) (e k) < int (Suc k)"
      using exceeds by (simp add: maxRetries_def)
    show "sleepWithCountdown (calculate_delay (merge_config config) (e j) (Suc j))"
      if "j < k" for j
      using wakes [OF that] by (simp add: sleepWithCountdown_def)
    show "0 \<le> k" by simp
  qed
  then show ?thesis by (simp add: retryWithBackoff_def)
qed

text \<open>
  Two runs under the default caps 5 and 3. In the first, three overload-class failures are
  followed by a failure outside the class: it is failure number 4 and is re-raised, the
  first of its class. In the second the failures are \<open>broken, busy, busy, busy, broken\<close>:
  the overload-class failure number 4 is retried, beyond the cap 3 of the other class, and
  the failure number 5, outside the class, is re-raised, within the cap 5 of the overload
  class.
\<close>

theorem mixed_class_exhaustion_witness:
  "outcome (retryWithBackoff busy_then_broken no_overrides) = Some (Inl broken) \<and>
   invocations (retryWithBackoff busy_then_broken no_overrides) = 4 \<and>
   length (filter (\<lambda>j. \<not> isOverloadedError (if j < 3 then busy else broken)) [0..<4]) = 1 \<and>
   maxOtherRetries (merge_config no_overrides) = 3 \<and>
   outcome (retryWithBackoff broken_busy_broken no_overrides) = Some (Inl broken) \<and>
   invocations (retryWithBackoff broken_busy_broken no_overrides) = 5"
proof -
  let ?c = "merge_config no_overrides"
  let ?e = "\<lambda>j :: nat. if j < 3 then busy else broken"
  let ?f = "\<lambda>j :: nat. if 1 \<le> j \<and> j \<le> 3 then busy else broken"
  have a: "busy_then_broken j = Inl (?e j)" for j
    by (simp add: busy_then_broken_def)
  have b: "int (Suc j) \<le> (if isOverloadedError (?e j) then maxOverloadRetries ?c
                              else maxOtherRetries ?c)" if "j < 3" for j
    using that by (simp add: busy_overloaded default_caps)
  have c: "(if isOverloadedError (?e 3) then maxOverloadRetries ?c else maxOtherRetries ?c)
             < int (Suc 3)"
    by (simp add: broken_not_overloaded default_caps)
  have d: "calculate_delay ?c (?e j) (Suc j) \<noteq> Some Infinity" if "j < 3" for j
    using that busy_delay [of "Suc j"] by simp
  have a': "broken_busy_broken j = Inl (?f j)" for j
    by (simp add: broken_busy_broken_def)
  have b': "int (Suc j) \<le> (if isOverloadedError (?f j) then maxOverloadRetries ?c
                               else maxOtherRetries ?c)" if "j < 4" for j
    using that by (simp add: busy_overloaded broken_not_overloaded default_caps)
  have c': "(if isOverloadedError (?f 4) then maxOverloadRetries ?c else maxOtherRetries ?c)
              < int (Suc 4)"
    by (simp add: broken_not_overloaded default_caps)
  have d': "calculate_delay ?c (?f j) (Suc j) \<noteq> Some Infinity" if "j < 4" for j
    using that busy_delay [of "Suc j"] broken_delay [of "Suc j"] by simp
  have "length (filter (\<lambda>j. \<not> isOverloadedError (?e j)) [0..<4]) = 1"
    by (simp add: upt_rec busy_overloaded broken_not_overloaded)
  then show ?thesis
    using mixed_class_exhaustion [where fn = busy_then_broken and config = no_overrides
        and k = 3 and e = ?e, OF a b c d]
      mixed_class_exhaustion [where fn = broken_busy_broken and config = no_overrides
        and k = 4 and e = ?f, OF a' b' c' d']
    by (simp add: broken_not_overloaded default_caps)
qed

text \<open>
  Claim C3. For an overload-class error without a retry-after hint and an attempt number of
  at least 1, the delay is the schedule read at \<open>min (attemptNumber - 1) (length - 1)\<close>;
  under the schedule \<open>[10000, 20000, 40000, 60000, 60000]\<close> the attempts 1 to 5 get the
  entry of their index and every later attempt gets 60000.
\<close>

theorem overload_delay_schedule:
  assumes "isOverloadedError lastError"
    and "extractRetryAfter lastError = None"
    and "1 \<le> attemptNumber"
  shows "calculate_delay fullConfig lastError attemptNumber =
           array_get (overloadBackoffDelays fullConfig)
             (min (int attemptNumber - 1) (int (length (overloadBackoffDelays fullConfig)) - 1)) \<and>
         (overloadBackoffDelays fullConfig \<noteq> [] \<longrightarrow>
            calculate_delay fullConfig lastError attemptNumber =
              Some (overloadBackoffDelays fullConfig !
                      min (attemptNumber - 1) (length (overloadBackoffDelays fullConfig) - 1))) \<and>
         (overloadBackoffDelays fullConfig =
            [Finite 10000, Finite 20000, Finite 40000, Finite 60000, Finite 60000] \<longrightarrow>
            calculate_delay fullConfig lastError attemptNumber =
              Some (if attemptNumber \<le> 5
                    then [Finite 10000, Finite 20000, Finite 40000, Finite 60000, Finite 60000]
                           ! (attemptNumber - 1)
                    else Finite 60000))"
proof -
  have "calculate_delay fullConfig lastError attemptNumber = backoff_delay fullConfig attemptNumber"
    using assms(1,2) by (simp add: calculate_delay_def)
  then show ?thesis
    using backoff_delay_nonempty [of fullConfig attemptNumber]
      backoff_delay_default [of fullConfig attemptNumber] assms(3)
    by (simp add: backoff_delay_def)
qed

theorem overload_delay_schedule_witness:
  "calculate_delay DEFAULT_RETRY_CONFIG busy 2 = Some (Finite 20000) \<and>
   calculate_delay DEFAULT_RETRY_CONFIG busy 7 = Some (Finite 60000)"
proof -
  have o: "isOverloadedError busy" by (simp add: busy_overloaded)
  have "calculate_delay DEFAULT_RETRY_CONFIG busy 2 = Some (Finite 20000)"
    using overload_delay_schedule [OF o busy_no_hint, of 2 DEFAULT_RETRY_CONFIG]
    by (simp add: default_schedule array_get_def)
  moreover have "calculate_delay DEFAULT_RETRY_CONFIG busy 7 = Some (Finite 60000)"
    using overload_delay_schedule [OF o busy_no_hint, of 7 DEFAULT_RETRY_CONFIG]
    by (simp add: default_schedule array_get_def)
  ultimately show ?thesis by simp
qed

text \<open>
  Claim C4 as stated fails where the power of two leaves the range of the doubles:
  \<open>Math.pow(2, 1024)\<close> is \<open>Infinity\<close>, so at attempt 1025 a base delay of 0 gives NaN, not
  \<open>0 * 2 ^ 1024 = 0\<close>, and the default base delay 1000 gives \<open>Infinity\<close>, not the number
  \<open>1000 * 2 ^ 1024\<close>.
\<close>

theorem exponential_delay_overflows:
  "\<not> isOverloadedError broken \<and>
   calculate_delay (DEFAULT_RETRY_CONFIG \<lparr> otherRetryDelay := Finite 0 \<rparr>) broken 1025
     = Some NaN \<and>
   calculate_delay (DEFAULT_RETRY_CONFIG \<lparr> otherRetryDelay := Finite 0 \<rparr>) broken 1025
     \<noteq> Some (Finite (0 * 2 ^ (1025 - 1))) \<and>
   calculate_delay DEFAULT_RETRY_CONFIG broken 1025 = Some Infinity"
  by (simp add: calculate_delay_def broken_not_overloaded Math_pow2_def js_times_def
      sign_of_def DEFAULT_RETRY_CONFIG_def)

text \<open>
  Claim C4, amended. For an error outside the overload class, an integer base delay
  \<open>otherRetryDelay\<close> of magnitude below \<open>2 ^ 53\<close> and an attempt number from 1 to 1024
  with \<open>\<bar>otherRetryDelay\<bar> * 2 ^ (attemptNumber - 1) < 2 ^ 1024\<close>, the delay is exactly
  \<open>otherRetryDelay * 2 ^ (attemptNumber - 1)\<close>: the base delay for attempt 1, twice it for
  attempt 2, four times it for attempt 3. The delay is a function of the configuration and
  the attempt number alone, without jitter.
\<close>

theorem other_error_delay:
  assumes "\<not> isOverloadedError lastError"
    and "1 \<le> attemptNumber" and "attemptNumber \<le> 1024"
    and "otherRetryDelay fullConfig = Finite d" and "\<bar>d\<bar> < 2 ^ 53"
    and "\<bar>d\<bar> * 2 ^ (attemptNumber - 1) < 2 ^ 1024"
  shows "calculate_delay fullConfig lastError attemptNumber =
           Some (Finite (d * 2 ^ (attemptNumber - 1))) \<and>
         calculate_delay fullConfig lastError 1 = Some (Finite d) \<and>
         calculate_delay fullConfig lastError 2 = Some (Finite (2 * d)) \<and>
         calculate_delay fullConfig lastError 3 = Some (Finite (4 * d))"
proof -
  have small: "\<bar>d\<bar> * 2 ^ j < 2 ^ 1024" if "j \<le> 2" for j
  proof -
    have "(2::int) ^ j \<le> 2 ^ 2" using that by (intro power_increasing) simp_all
    then have "\<bar>d\<bar> * 2 ^ j \<le> \<bar>d\<bar> * 4" by (simp add: mult_left_mono)
    also have "\<dots> < 2 ^ 53 * 4" using assms(5) by simp
    also have "\<dots> < (2::int) ^ 1024" by simp
    finally show ?thesis .
  qed
  have "calculate_delay fullConfig lastError attemptNumber
          = Some (Finite (d * 2 ^ (attemptNumber - 1)))"
    using assms by (rule other_delay_exact)
  moreover have "calculate_delay fullConfig lastError 1 = Some (Finite (d * 2 ^ (1 - 1)))"
  proof -
    have "\<bar>d\<bar> * 2 ^ ((1::nat) - 1) < 2 ^ 1024" using small [of 0] by simp
    then show ?thesis
      using other_delay_exact [OF assms(1) _ _ assms(4,5), of 1] by simp
  qed
  moreover have "calculate_delay fullConfig lastError 2 = Some (Finite (d * 2 ^ (2 - 1)))"
  proof -
    have "\<bar>d\<bar> * 2 ^ ((2::nat) - 1) < 2 ^ 1024" using small [of 1] by simp
    then show ?thesis
      using other_delay_exact [OF assms(1) _ _ assms(4,5), of 2] by simp
  qed
  moreover have "calculate_delay fullConfig lastError 3 = Some (Finite (d * 2 ^ (3 - 1)))"
  proof -
    have "\<bar>d\<bar> * 2 ^ ((3::nat) - 1) < 2 ^ 1024" using small [of 2] by simp
    then show ?thesis
      using other_delay_exact [OF assms(1) _ _ assms(4,5), of 3] by simp
  qed
  ultimately show ?thesis by simp
qed

theorem other_error_delay_witness:
  "calculate_delay DEFAULT_RETRY_CONFIG broken 3 = Some (Finite 4000)"
proof -
  have n: "\<not> isOverloadedError broken" by (simp add: broken_not_overloaded)
  have d: "otherRetryDelay DEFAULT_RETRY_CONFIG = Finite 1000"
    by (simp add: DEFAULT_RETRY_CONFIG_def)
  show ?thesis
    using other_error_delay [OF n _ _ d, of 3]
    by simp
qed

text \<open>
  Claim C9. For an overload-class error whose retry-after hint parses to 0 seconds, the
  delay is not the hinted zero: the hint counts as absent and the delay is the entry of the
  schedule for the current attempt.
\<close>

theorem zero_hint_falls_back:
  assumes "isOverloadedError lastError"
    and "extractRetryAfter lastError = Some (Finite 0)"
    and "1 \<le> attemptNumber"
  shows "calculate_delay fullConfig lastError attemptNumber =
           array_get (overloadBackoffDelays fullConfig)
             (min (int attemptNumber - 1) (int (length (overloadBackoffDelays fullConfig)) - 1)) \<and>
         (overloadBackoffDelays fullConfig \<noteq> [] \<longrightarrow>
            calculate_delay fullConfig lastError attemptNumber =
              Some (overloadBackoffDelays fullConfig !
                      min (attemptNumber - 1) (length (overloadBackoffDelays fullConfig) - 1)))"
proof -
  have "calculate_delay fullConfig lastError attemptNumber = backoff_delay fullConfig attemptNumber"
    using assms(1,2) by (simp add: calculate_delay_def)
  then show ?thesis
    using backoff_delay_nonempty [of fullConfig attemptNumber] assms(3)
    by (simp add: backoff_delay_def)
qed

theorem zero_hint_falls_back_witness:
  "regex_match (message busy_retry_now) = Some ''0'' \<and>
   calculate_delay DEFAULT_RETRY_CONFIG busy_retry_now 1 = Some (Finite 10000)"
proof -
  have o: "isOverloadedError busy_retry_now" by code_simp
  have z: "extractRetryAfter busy_retry_now = Some (Finite 0)" by code_simp
  have m: "regex_match (message busy_retry_now) = Some ''0''" by code_simp
  show ?thesis
    using zero_hint_falls_back [OF o z, of 1 DEFAULT_RETRY_CONFIG] m
    by (simp add: default_schedule array_get_def)
qed

text \<open>
  The digits of a number parse back to it, so a hint written as the decimal digits of
  \<open>n\<close> seconds denotes \<open>n\<close>.
\<close>

lemma digit_value_char_of:
  assumes "d < 10"
  shows "digit_value (char_of (48 + d)) = int d"
proof -
  have n: "(of_char (char_of (48 + d)) :: nat) = 48 + d" using assms by simp
  have "(of_char (char_of (48 + d)) :: int) = int (of_char (char_of (48 + d)))"
    by (simp only: of_nat_of_char)
  then have "(of_char (char_of (48 + d)) :: int) = int (48 + d)" by (simp only: n)
  then show ?thesis by (simp add: digit_value_def)
qed

lemma digits_value_number_toString: "digits_value (number_toString n) = int n"
proof (induction n rule: number_toString.induct)
  case (1 n)
  show ?case
  proof (cases "n < 10")
    case True
    then show ?thesis
      by (simp add: number_toString.simps [of n] digits_value_def digit_value_char_of)
  next
    case False
    then have "digits_value (number_toString (n div 10)) = int (n div 10)" by (rule "1.IH")
    then show ?thesis
      using False
      by (simp add: number_toString.simps [of n] digits_value_snoc digit_value_char_of
          zdiv_int zmod_int)
  qed
qed

text \<open>
  Claim C5 as stated fails in two ways. A hint of 0 seconds is not used: the first error
  below is overload-class, the pattern matches with the digits \<open>0\<close>, and the delay of attempt
  2 is the schedule entry 20000, not \<open>0 * 1000\<close>. A hint too long for a double is rounded:
  for 9007199254740993 seconds, \<open>2 ^ 53 + 1\<close>, the delay is 9007199254740992000.
\<close>

theorem zero_hint_not_used:
  "isOverloadedError limited_retry_now \<and>
   regex_match (message limited_retry_now) = Some ''0'' \<and>
   calculate_delay DEFAULT_RETRY_CONFIG limited_retry_now 2 = Some (Finite 20000) \<and>
   calculate_delay DEFAULT_RETRY_CONFIG limited_retry_now 2
     \<noteq> Some (Finite (digits_value ''0'' * 1000)) \<and>
   isOverloadedError limited_retry_much_later \<and>
   regex_match (message limited_retry_much_later) = Some ''9007199254740993'' \<and>
   calculate_delay DEFAULT_RETRY_CONFIG limited_retry_much_later 1
     = Some (Finite 9007199254740992000) \<and>
   calculate_delay DEFAULT_RETRY_CONFIG limited_retry_much_later 1
     \<noteq> Some (Finite (digits_value ''9007199254740993'' * 1000))"
  by code_simp

text \<open>
  Claim C5, amended. For an overload-class error whose message carries a retry-after hint
  of a number of seconds other than 0 and with \<open>seconds * 1000\<close> below \<open>2 ^ 53\<close>, the
  delay is exactly that number times 1000, whatever the schedule says. The hint is the
  leftmost match of the pattern: the word \<open>retry\<close>, a hyphen or a space, the word \<open>after\<close>
  (letters in either case), a non-empty run of colons and white space, and a maximal
  non-empty run of digits; no match starts further left.
\<close>

theorem hint_delay:
  assumes ov: "isOverloadedError lastError"
    and shape: "message lastError = before @ r @ [h] @ a @ seps @ digits @ rest"
    and r: "toLowerCase r = ''retry''"
    and h: "h = CHR ''-'' \<or> h = CHR '' ''"
    and a: "toLowerCase a = ''after''"
    and seps: "seps \<noteq> []" "list_all is_sep seps"
    and digits: "digits \<noteq> []" "list_all is_digit digits"
    and rest: "case rest of [] \<Rightarrow> True | c # _ \<Rightarrow> \<not> is_digit c"
    and first: "list_all (\<lambda>i. match_here (drop i (message lastError)) = None) [0..<length before]"
    and nonzero: "digits_value digits \<noteq> 0"
    and exact: "digits_value digits * 1000 < 2 ^ 53"
  shows "calculate_delay fullConfig lastError attemptNumber
           = Some (Finite (digits_value digits * 1000))"
proof -
  have "extractRetryAfter lastError = Some (js_times (parseInt digits) (Finite 1000))"
    using shape r h a seps digits rest first by (rule extractRetryAfter_hint)
  then have "extractRetryAfter lastError = Some (Finite (digits_value digits * 1000))"
    using digits(2) exact by (simp add: hint_exact)
  then show ?thesis
    using ov nonzero by (simp add: calculate_delay_def)
qed

theorem hint_delay_witness:
  "calculate_delay DEFAULT_RETRY_CONFIG limited_retry_later 1 = Some (Finite 30000)"
proof -
  have o: "isOverloadedError limited_retry_later" by code_simp
  have shape: "message limited_retry_later =
      ''status 429 '' @ ''Retry'' @ [CHR ''-''] @ ''After'' @ '': '' @ ''30'' @ ''s''"
    by (simp add: limited_retry_later_def)
  have r: "toLowerCase ''Retry'' = ''retry''" by code_simp
  have h: "CHR ''-'' = CHR ''-'' \<or> CHR ''-'' = CHR '' ''" by simp
  have a: "toLowerCase ''After'' = ''after''" by code_simp
  have s1: "'': '' \<noteq> []" by simp
  have s2: "list_all is_sep '': ''" by code_simp
  have d1: "''30'' \<noteq> []" by simp
  have d2: "list_all is_digit ''30''" by code_simp
  have rest: "case ''s'' of [] \<Rightarrow> True | c # _ \<Rightarrow> \<not> is_digit c" by code_simp
  have first: "list_all (\<lambda>i. match_here (drop i (message limited_retry_later)) = None)
                 [0..<length ''status 429 '']"
    by code_simp
  have p: "digits_value ''30'' = 30" by code_simp
  then have nz: "digits_value ''30'' \<noteq> 0" and ex: "digits_value ''30'' * 1000 < 2 ^ 53"
    by simp_all
  show ?thesis
    using hint_delay [OF o shape r h a s1 s2 d1 d2 rest first nz ex, of DEFAULT_RETRY_CONFIG 1] p
    by simp
qed

section \<open>The Anthropic adapter: request body and HTTP failure\<close>



lemma array_get_last: "array_get (xs @ [x]) (int (length (xs @ [x])) - 1) = Some x"
  by (simp add: array_get_def)

lemma array_get_last_nonempty:
  "xs \<noteq> [] \<Longrightarrow> array_get xs (int (length xs) - 1) = Some (last xs)"
  by (cases xs rule: rev_cases) (simp_all add: array_get_def)

lemma array_get_empty: "array_get [] i = None"
  by (simp add: array_get_def)

text \<open>
  Claim C6. When the last message of the conversation has the role \<open>system\<close>, the request
  body carries its content in the field \<open>system\<close> and its \<open>messages\<close> are the conversation
  without exactly that last message. When the last message has another role, or there is
  none, \<open>messages\<close> is the conversation unchanged and \<open>system\<close> is undefined.
\<close>

theorem trailing_system_hoisted:
  "(role m = ''system'' \<longrightarrow>
      request_of anthropicModel (conversation @ [m]) =
        Inr \<lparr> model = anthropicModel, messages = conversation,
              system = Some (content m), max_tokens = 500 \<rparr>) \<and>
   (msgs = [] \<or> role (last msgs) \<noteq> ''system'' \<longrightarrow>
      request_of anthropicModel msgs =
        Inr \<lparr> model = anthropicModel, messages = msgs, system = None, max_tokens = 500 \<rparr>)"
proof (intro conjI impI)
  assume "role m = ''system''"
  then show "request_of anthropicModel (conversation @ [m]) =
        Inr \<lparr> model = anthropicModel, messages = conversation,
              system = Some (content m), max_tokens = 500 \<rparr>"
    unfolding request_of_def lastMessageIsSystem_def buildRequestBody_def array_get_last
    by (simp add: slice_init_def)
next
  assume a: "msgs = [] \<or> role (last msgs) \<noteq> ''system''"
  have "\<not> lastMessageIsSystem msgs"
  proof (cases "msgs = []")
    case True
    then show ?thesis by (simp add: lastMessageIsSystem_def array_get_empty)
  next
    case False
    then show ?thesis
      using a by (simp add: lastMessageIsSystem_def array_get_last_nonempty)
  qed
  then show "request_of anthropicModel msgs =
        Inr \<lparr> model = anthropicModel, messages = msgs, system = None, max_tokens = 500 \<rparr>"
    by (simp add: request_of_def buildRequestBody_def)
qed

theorem trailing_system_hoisted_witness:
  "request_of ''claude'' [question, rubric] =
     Inr \<lparr> model = ''claude'', messages = [question],
           system = Some ''Answer with FINAL_RANKING = n.'', max_tokens = 500 \<rparr> \<and>
   request_of ''claude'' [rubric, question] =
     Inr \<lparr> model = ''claude'', messages = [rubric, question], system = None,
           max_tokens = 500 \<rparr>"
proof -
  have r: "role rubric = ''system''" by (simp add: rubric_def)
  have q: "[rubric, question] = [] \<or> role (last [rubric, question]) \<noteq> ''system''"
    by (simp add: question_def)
  have "request_of ''claude'' ([question] @ [rubric]) =
     Inr \<lparr> model = ''claude'', messages = [question],
           system = Some (content rubric), max_tokens = 500 \<rparr>"
    using trailing_system_hoisted [of rubric "''claude''" "[question]"] r by blast
  moreover have "request_of ''claude'' [rubric, question] =
     Inr \<lparr> model = ''claude'', messages = [rubric, question], system = None,
           max_tokens = 500 \<rparr>"
    using trailing_system_hoisted [of _ "''claude''" _ "[rubric, question]"] q by blast
  ultimately show ?thesis by (simp add: rubric_def)
qed



lemma request_of_total: "\<exists>request. request_of anthropicModel msgs = Inr request"
proof (cases "msgs = []")
  case True
  then show ?thesis
    by (simp add: request_of_def buildRequestBody_def lastMessageIsSystem_def array_get_empty)
next
  case False
  then show ?thesis
    by (simp add: request_of_def buildRequestBody_def lastMessageIsSystem_def
        array_get_last_nonempty)
qed

lemma number_toString_529: "number_toString 529 = ''529''"
  by code_simp

lemma status_529_overloaded:
  "isOverloadedError \<lparr> err_class = k, message = ''HTTP error calling API: got status '' @ ''529'' @ ''. Response: '' @ b \<rparr>"
proof -
  have "str_includes (toLowerCase ''HTTP error calling API: got status 529'') ''status 529''"
    by code_simp
  then have "sublist ''status 529'' (toLowerCase ''HTTP error calling API: got status 529'')"
    by (simp only: str_includes_sublist)
  then have "sublist ''status 529''
      (toLowerCase ''HTTP error calling API: got status 529'' @ toLowerCase (''. Response: '' @ b))"
    by (rule sublist_append_right)
  then have "str_includes (toLowerCase (''HTTP error calling API: got status 529'' @ ''. Response: '' @ b)) ''status 529''"
    by (simp only: str_includes_sublist toLowerCase_append)
  then show ?thesis
    by (simp add: isOverloadedError_def)
qed

text \<open>
  Claim C7. For a response that is not a success (\<open>ok\<close> is false, which for a fetched
  response means a status outside 200 to 299, or the status is 400 or more) the adapter
  fails, in \<open>handleApiResponse\<close> and so in the call handed to the retry loop, with an error
  whose message contains the decimal status code and the response body verbatim. For the
  status 529, so also with the body \<open>overloaded_error\<close>, \<open>isOverloadedError\<close> is true of
  that error.
\<close>

theorem http_failure_error:
  assumes "\<not> ok resp \<or> status resp \<ge> 400"
  shows "\<exists>error.
           handleApiResponse resp = Inl error \<and>
           (\<forall>fetch request. request_of anthropicModel msgs = Inr request \<and> fetch request = Inr resp
              \<longrightarrow> api_call anthropicModel msgs fetch = Inl error) \<and>
           message error = ''HTTP error calling API: got status '' @ number_toString (status resp)
                             @ ''. Response: '' @ body resp \<and>
           sublist (number_toString (status resp)) (message error) \<and>
           sublist (body resp) (message error) \<and>
           (status resp = 529 \<longrightarrow> isOverloadedError error)"
proof -
  let ?error = "\<lparr> err_class = Error,
      message = ''HTTP error calling API: got status '' @ number_toString (status resp)
                @ ''. Response: '' @ body resp \<rparr>"
  have h: "handleApiResponse resp = Inl ?error"
    using assms by (auto simp: handleApiResponse_def)
  have a: "api_call anthropicModel msgs fetch = Inl ?error"
    if "request_of anthropicModel msgs = Inr request \<and> fetch request = Inr resp"
    for fetch request
    using that h by (simp add: api_call_def)
  have s1: "sublist (number_toString (status resp)) (message ?error)"
    unfolding sublist_def by (intro exI [of _ "''HTTP error calling API: got status ''"]
        exI [of _ "''. Response: '' @ body resp"]) simp
  have s2: "sublist (body resp) (message ?error)"
    unfolding sublist_def
    by (intro exI [of _ "''HTTP error calling API: got status '' @ number_toString (status resp) @ ''. Response: ''"]
        exI [of _ "[]"]) simp
  have o: "isOverloadedError ?error" if "status resp = 529"
    using status_529_overloaded [of Error "body resp"] that
    by (simp only: number_toString_529)
  show ?thesis
  proof (intro exI [of _ ?error] conjI allI impI)
    show "handleApiResponse resp = Inl ?error" by (rule h)
    show "api_call anthropicModel msgs fetch = Inl ?error"
      if "request_of anthropicModel msgs = Inr request \<and> fetch request = Inr resp"
      for fetch request
      using that by (rule a)
    show "message ?error = ''HTTP error calling API: got status ''
            @ number_toString (status resp) @ ''. Response: '' @ body resp"
      by simp
    show "sublist (number_toString (status resp)) (message ?error)" by (rule s1)
    show "sublist (body resp) (message ?error)" by (rule s2)
    show "isOverloadedError ?error" if "status resp = 529" using that by (rule o)
  qed
qed

theorem http_failure_error_witness:
  "handleApiResponse overloaded_response =
     Inl \<lparr> err_class = Error,
           message = ''HTTP error calling API: got status 529. Response: overloaded_error'' \<rparr> \<and>
   isOverloadedError \<lparr> err_class = Error,
           message = ''HTTP error calling API: got status 529. Response: overloaded_error'' \<rparr>"
proof -
  have f: "\<not> ok overloaded_response \<or> status overloaded_response \<ge> 400"
    by (simp add: overloaded_response_def)
  obtain error where e: "handleApiResponse overloaded_response = Inl error"
    "message error = ''HTTP error calling API: got status ''
        @ number_toString (status overloaded_response) @ ''. Response: ''
        @ body overloaded_response"
    "status overloaded_response = 529 \<longrightarrow> isOverloadedError error"
    using http_failure_error [OF f] by blast
  have "handleApiResponse overloaded_response =
     Inl \<lparr> err_class = Error,
           message = ''HTTP error calling API: got status 529. Response: overloaded_error'' \<rparr>"
    by (simp add: handleApiResponse_def overloaded_response_def number_toString_529)
  then show ?thesis
    using e by (simp add: overloaded_response_def)
qed

section \<open>The concurrency governor: bounds of the limiters\<close>


lemma enqueue_within: "within_limit g \<Longrightarrow> within_limit (enqueue g t)"
  by (auto simp: within_limit_def enqueue_def Let_def split: list.splits)

lemma enqueue_concurrency: "concurrency (enqueue g t) = concurrency g"
  by (auto simp: enqueue_def Let_def split: list.splits)

lemma finish_within:
  assumes "within_limit g" and "t \<in> set (running g)"
  shows "within_limit (finish g t)"
proof -
  have "0 < length (running g)" using assms(2) by (cases "running g") auto
  then show ?thesis
    using assms
    by (auto simp: within_limit_def finish_def Let_def length_remove1 split: list.splits)
qed

lemma finish_concurrency: "concurrency (finish g t) = concurrency g"
  by (auto simp: finish_def Let_def split: list.splits)

lemma settle_detached_within:
  "list_all within_limit gs \<Longrightarrow> list_all within_limit (settle_detached gs t)"
  by (induction gs) (auto simp: finish_within)

lemma pLimit_within: "pLimit n = Inr g \<Longrightarrow> within_limit g \<and> concurrency g = n"
  by (auto simp: pLimit_def within_limit_def split: if_splits)

lemma updateRateLimit_bounded:
  assumes "gates_bounded s" and "updateRateLimit s = Inr s'"
  shows "gates_bounded s'"
  using assms pLimit_within
  by (auto simp: updateRateLimit_def gates_bounded_def Let_def split: if_splits sum.splits)

lemma step_bounded: "gates_bounded s \<Longrightarrow> gates_bounded (step s ev)"
proof (cases ev)
  case (SetConcurrency n)
  assume "gates_bounded s"
  then show ?thesis using SetConcurrency by (simp add: gates_bounded_def)
next
  case (Dispatch t)
  assume b: "gates_bounded s"
  show ?thesis
  proof (cases "updateRateLimit s")
    case (Inl err)
    then show ?thesis using b Dispatch by simp
  next
    case (Inr s')
    then have "gates_bounded s'" using b by (simp add: updateRateLimit_bounded)
    then show ?thesis
      using Dispatch Inr
      by (simp add: gates_bounded_def enqueue_within enqueue_concurrency)
  qed
next
  case (Settle t)
  assume "gates_bounded s"
  then show ?thesis
    using Settle
    by (simp add: gates_bounded_def finish_within finish_concurrency settle_detached_within)
qed

lemma run_events_bounded: "gates_bounded s \<Longrightarrow> gates_bounded (run_events s evs)"
  unfolding run_events_def
  by (induction evs arbitrary: s) (simp_all add: step_bounded)

lemma module_init_bounded: "module_init n = Inr s \<Longrightarrow> gates_bounded s"
  using pLimit_within
  by (auto simp: module_init_def gates_bounded_def split: sum.splits)

lemma updateRateLimit_rebuild:
  assumes "1 \<le> configured s" and "configured s \<noteq> lastConcurrency s"
  shows "updateRateLimit s =
           Inr (s\<lparr> globalRateLimit := \<lparr> concurrency = configured s, running = [], queue = [] \<rparr>,
                   lastConcurrency := configured s,
                   detached := globalRateLimit s # detached s \<rparr>)"
  using assms by (simp add: updateRateLimit_def pLimit_def Let_def)

lemma updateRateLimit_keep:
  assumes "configured s = lastConcurrency s"
  shows "updateRateLimit s = Inr s"
  using assms by (simp add: updateRateLimit_def)

lemma dispatch_detached:
  "detached (step s (Dispatch t)) = detached s \<or>
   detached (step s (Dispatch t)) = globalRateLimit s # detached s"
  by (auto simp: updateRateLimit_def Let_def split: sum.splits if_splits)

text \<open>
  Claim C8 as stated fails once the limit changes while slots are held. The module loads
  with the limit 2 and two dispatches take both slots; the configured limit drops to 1; the
  next dispatch rebuilds the limiter, which starts empty and admits it. Three dispatches
  now hold a slot while the configured and the cached limit are 1.
\<close>

theorem holders_exceed_limit:
  "module_init 2 = Inr two_slots \<and>
   holding (run_events two_slots [Dispatch 1, Dispatch 2, SetConcurrency 1, Dispatch 3]) = 3 \<and>
   configured (run_events two_slots [Dispatch 1, Dispatch 2, SetConcurrency 1, Dispatch 3]) = 1 \<and>
   lastConcurrency (run_events two_slots [Dispatch 1, Dispatch 2, SetConcurrency 1, Dispatch 3]) = 1 \<and>
   \<not> holding (run_events two_slots [Dispatch 1, Dispatch 2, SetConcurrency 1, Dispatch 3])
       \<le> configured (run_events two_slots [Dispatch 1, Dispatch 2, SetConcurrency 1, Dispatch 3])"
  by (simp add: module_init_def pLimit_def two_slots_def run_events_def updateRateLimit_def
      enqueue_def holding_def)

text \<open>
  Claim C8, amended. In every state the module reaches, each limiter has at most as many
  holders as the limit it was built with, and the holders of the current limiter are at most
  the cached limit; the total over all limiters is not bounded by the configured limit. On
  an acquisition with a configured value of at least 1 the limiter is rebuilt with the new
  limit exactly when the configured value differs from the cached one; the replaced limiter
  is kept as it was, with its running and queued tasks, and a dispatch never changes a
  replaced limiter.
\<close>

theorem gate_bounds:
  assumes "module_init n = Inr s0" and "s = run_events s0 evs"
  shows "length (running (globalRateLimit s)) \<le> lastConcurrency s \<and>
         concurrency (globalRateLimit s) = lastConcurrency s \<and>
         (\<forall>g \<in> set (detached s). length (running g) \<le> concurrency g) \<and>
         (1 \<le> configured s \<and> configured s \<noteq> lastConcurrency s \<longrightarrow>
            updateRateLimit s =
              Inr (s\<lparr> globalRateLimit :=
                        \<lparr> concurrency = configured s, running = [], queue = [] \<rparr>,
                      lastConcurrency := configured s,
                      detached := globalRateLimit s # detached s \<rparr>)) \<and>
         (configured s = lastConcurrency s \<longrightarrow> updateRateLimit s = Inr s) \<and>
         (\<forall>t. detached (step s (Dispatch t)) = detached s \<or>
              detached (step s (Dispatch t)) = globalRateLimit s # detached s)"
proof -
  have "gates_bounded s"
    using assms by (simp add: module_init_bounded run_events_bounded)
  then have "length (running (globalRateLimit s)) \<le> lastConcurrency s"
    and "concurrency (globalRateLimit s) = lastConcurrency s"
    and "\<forall>g \<in> set (detached s). length (running g) \<le> concurrency g"
    by (auto simp: gates_bounded_def within_limit_def list_all_iff)
  then show ?thesis
    using updateRateLimit_rebuild [of s] updateRateLimit_keep [of s] dispatch_detached [of s]
    by blast
qed

theorem gate_bounds_witness:
  "length (running (globalRateLimit
      (run_events two_slots [Dispatch 1, Dispatch 2, Dispatch 3, SetConcurrency 1]))) = 2 \<and>
   queue (globalRateLimit
      (run_events two_slots [Dispatch 1, Dispatch 2, Dispatch 3, SetConcurrency 1])) = [3] \<and>
   lastConcurrency (run_events two_slots [Dispatch 1, Dispatch 2, Dispatch 3, SetConcurrency 1]) = 2 \<and>
   updateRateLimit (run_events two_slots [Dispatch 1, Dispatch 2, Dispatch 3, SetConcurrency 1]) =
     Inr \<lparr> configured = 1,
           globalRateLimit = \<lparr> concurrency = 1, running = [], queue = [] \<rparr>,
           lastConcurrency = 1,
           detached = [\<lparr> concurrency = 2, running = [1, 2], queue = [3] \<rparr>] \<rparr>"
proof -
  let ?s = "run_events two_slots [Dispatch 1, Dispatch 2, Dispatch 3, SetConcurrency 1]"
  have i: "module_init 2 = Inr two_slots"
    by (simp add: module_init_def pLimit_def two_slots_def)
  have v: "?s = \<lparr> configured = 1,
           globalRateLimit = \<lparr> concurrency = 2, running = [1, 2], queue = [3] \<rparr>,
           lastConcurrency = 2, detached = [] \<rparr>"
    by (simp add: two_slots_def run_events_def updateRateLimit_def enqueue_def)
  have c: "1 \<le> configured ?s \<and> configured ?s \<noteq> lastConcurrency ?s"
    unfolding v by simp
  have "updateRateLimit ?s =
      Inr (?s\<lparr> globalRateLimit := \<lparr> concurrency = configured ?s, running = [], queue = [] \<rparr>,
               lastConcurrency := configured ?s,
               detached := globalRateLimit ?s # detached ?s \<rparr>)"
    using gate_bounds [OF i refl, of "[Dispatch 1, Dispatch 2, Dispatch 3, SetConcurrency 1]"] c
    by blast
  moreover have "length (running (globalRateLimit ?s)) \<le> lastConcurrency ?s"
    using gate_bounds [OF i refl, of "[Dispatch 1, Dispatch 2, Dispatch 3, SetConcurrency 1]"]
    by blast
  ultimately show ?thesis unfolding v by simp
qed

end
